theory Spec2Isabelle
  imports Main "HOL-Library.AList" "HOL-Library.Char_ord" "HOL-Library.List_Lexorder"
    "HOL-Library.Sublist"
begin

section \<open>Go runtime values: errors and the strings package\<close>

text \<open>
  A Go \<open>error\<close> value.  \<open>EOF\<close> is \<open>io.EOF\<close>, \<open>SkipDir\<close> is \<open>filepath.SkipDir\<close>,
  \<open>ErrNotExist\<close> is an error for which \<open>os.IsNotExist\<close> holds, \<open>Errorf m\<close> is any other
  error with message \<open>m\<close> (as built by \<open>fmt.Errorf\<close>), and \<open>Panic m\<close> stands for a run-time
  panic (nil dereference, index out of range), which unwinds through every caller.
\<close>

datatype error = EOF | SkipDir | ErrNotExist | Errorf string | Panic string

fun Error :: "error \<Rightarrow> string" where
  "Error EOF = ''EOF''"
| "Error SkipDir = ''skip this directory''"
| "Error ErrNotExist = ''file does not exist''"
| "Error (Errorf m) = m"
| "Error (Panic m) = m"

definition IsNotExist :: "error \<Rightarrow> bool" where
  "IsNotExist err = (err = ErrNotExist)"

text \<open>\<open>strings.HasPrefix\<close> and \<open>strings.HasSuffix\<close>.\<close>

definition strings_HasPrefix :: "string \<Rightarrow> string \<Rightarrow> bool" where
  "strings_HasPrefix s pre = prefix pre s"

definition strings_HasSuffix :: "string \<Rightarrow> string \<Rightarrow> bool" where
  "strings_HasSuffix s suf = suffix suf s"

text \<open>\<open>strings.Index\<close>: the position of the first instance of \<open>sep\<close>; \<open>None\<close> is Go's -1.\<close>

fun strings_Index :: "string \<Rightarrow> string \<Rightarrow> nat option" where
  "strings_Index [] sep = (if sep = [] then Some 0 else None)"
| "strings_Index (c # cs) sep =
     (if prefix sep (c # cs) then Some 0 else map_option Suc (strings_Index cs sep))"

lemma strings_Index_bound:
  "strings_Index s sep = Some m \<Longrightarrow> m + length sep \<le> length s"
proof (induction s arbitrary: m)
  case Nil
  then show ?case by (simp split: if_splits)
next
  case (Cons c cs)
  show ?case
  proof (cases "prefix sep (c # cs)")
    case True
    with Cons.prems have "m = 0" by simp
    moreover from True have "length sep \<le> length (c # cs)" by (rule prefix_length_le)
    ultimately show ?thesis by simp
  next
    case False
    with Cons.prems obtain j where j: "strings_Index cs sep = Some j" "m = Suc j"
      by auto
    from Cons.IH [OF j(1)] j(2) show ?thesis by simp
  qed
qed

text \<open>
  \<open>strings.Split\<close>: cut at every (leftmost, non-overlapping) instance of \<open>sep\<close>.  With an
  empty separator Go explodes the string into its UTF-8 sequences; characters are bytes here,
  so that case is exact for ASCII only (the reader always passes a non-empty separator).
\<close>

function strings_Split :: "string \<Rightarrow> string \<Rightarrow> string list" where
  "strings_Split s sep =
     (if sep = [] then map (\<lambda>c. [c]) s
      else (case strings_Index s sep of
              None \<Rightarrow> [s]
            | Some m \<Rightarrow> take m s # strings_Split (drop (m + length sep) s) sep))"
  by pat_completeness auto
termination
proof (relation "measure (\<lambda>(s, sep). length s)")
  show "wf (measure (\<lambda>(s, sep). length s))" by simp
next
  fix s sep :: string and m
  assume "sep \<noteq> []" and "strings_Index s sep = Some m"
  then have "m + length sep \<le> length s" and "0 < length sep"
    by (auto dest: strings_Index_bound)
  then show "((drop (m + length sep) s, sep), (s, sep)) \<in> measure (\<lambda>(s, sep). length s)"
    by (cases sep) simp_all
qed

declare strings_Split.simps [simp del]

text \<open>\<open>strings.Join\<close>.\<close>

fun strings_Join :: "string list \<Rightarrow> string \<Rightarrow> string" where
  "strings_Join [] sep = []"
| "strings_Join [x] sep = x"
| "strings_Join (x # y # ys) sep = x @ sep @ strings_Join (y # ys) sep"

text \<open>
  \<open>strings.Replace s old new n\<close>: the first \<open>n\<close> non-overlapping instances of \<open>old\<close> are
  replaced, all of them when \<open>n < 0\<close>.  \<open>replace_empty\<close> is the case of an empty \<open>old\<close>
  (a match before every rune and at the end; runes are taken as single bytes), and
  \<open>replace_instances\<close> is the loop over the instances of a non-empty \<open>old\<close>.
\<close>

fun replace_empty :: "string \<Rightarrow> string \<Rightarrow> int \<Rightarrow> string" where
  "replace_empty [] new n = (if n = 0 then [] else new)"
| "replace_empty (c # cs) new n =
     (if n = 0 then c # cs else new @ c # replace_empty cs new (n - 1))"

function replace_instances :: "string \<Rightarrow> string \<Rightarrow> string \<Rightarrow> int \<Rightarrow> string" where
  "replace_instances s old new n =
     (if n = 0 \<or> old = [] then s
      else (case strings_Index s old of
              None \<Rightarrow> s
            | Some j \<Rightarrow> take j s @ new @ replace_instances (drop (j + length old) s) old new (n - 1)))"
  by pat_completeness auto
termination
proof (relation "measure (\<lambda>(s, old, new, n). length s)")
  show "wf (measure (\<lambda>(s, old, new, n). length s))" by simp
next
  fix s old new :: string and n :: int and j
  assume "\<not> (n = 0 \<or> old = [])" and "strings_Index s old = Some j"
  then have "j + length old \<le> length s" and "0 < length old"
    by (auto dest: strings_Index_bound)
  then show "((drop (j + length old) s, old, new, n - 1), (s, old, new, n))
      \<in> measure (\<lambda>(s, old, new, n). length s)"
    by (cases old) simp_all
qed

declare replace_instances.simps [simp del]

definition strings_Replace :: "string \<Rightarrow> string \<Rightarrow> string \<Rightarrow> int \<Rightarrow> string" where
  "strings_Replace s old new n =
     (if old = new \<or> n = 0 then s
      else if old = [] then replace_empty s new n
      else replace_instances s old new n)"

text \<open>\<open>fmt.Sprintf("%d", n)\<close> for a non-negative \<open>n\<close>.\<close>

definition digit_char :: "nat \<Rightarrow> char" where
  "digit_char d = ''0123456789'' ! d"

function Sprintf_d :: "nat \<Rightarrow> string" where
  "Sprintf_d n = (if n < 10 then [digit_char n] else Sprintf_d (n div 10) @ [digit_char (n mod 10)])"
  by pat_completeness auto
termination
  by (relation "measure id") auto

declare Sprintf_d.simps [simp del]


section \<open>Package yaml: nodes and filters (filters.go)\<close>

text \<open>
  The node of the YAML library (\<open>yaml.Node\<close> of gopkg.in/yaml.v3) with the fields the code
  reads: a mapping node holds its keys and values alternately in \<open>Content\<close>, a document node
  holds its root as \<open>Content[0]\<close>.
\<close>

datatype Kind = DocumentNode | SequenceNode | MappingNode | ScalarNode | AliasNode

datatype Node = Node (Kind: Kind) (Tag: string) (Value: string) (Content: "Node list")

definition NullNodeTag :: string where
  "NullNodeTag = ''!!null''"

definition set_Value :: "Node \<Rightarrow> string \<Rightarrow> Node" where
  "set_Value n v = Node (Kind n) (Tag n) v (Content n)"

text \<open>
  Filters mutate nodes in place and hand pointers on, so a filter works on a heap: an
  \<open>*RNode\<close> is an address, and the heap holds the \<open>yaml.Node\<close> behind each live address
  (\<open>None\<close>: a nil \<open>value\<close>, whose dereference panics).  A filter returns Go's pair
  \<open>(*RNode, error)\<close> and the heap it leaves.  The types of addresses and heaps are parameters
  of the \<open>Filter\<close> interface; the concrete filters of this file use \<open>nat\<close> and \<open>heap\<close>.
\<close>

type_synonym heap = "nat \<Rightarrow> Node option"

type_synonym ('n, 'h) Filter = "'n \<Rightarrow> 'h \<Rightarrow> ('n option \<times> error option) \<times> 'h"

text \<open>
  Modelled from the spec: \<open>RNode.Pipe\<close> is declared outside src.  The spec (4.1): filters are
  applied strictly left to right, the node returned by one filter is the input of the next,
  and evaluation stops immediately when a filter returns nil or a non-nil error.
\<close>

fun Pipe :: "('n, 'h) Filter list \<Rightarrow> ('n, 'h) Filter" where
  "Pipe [] rn h = ((Some rn, None), h)"
| "Pipe (c # cs) rn h =
     (case c rn h of
        ((Some v, None), h') \<Rightarrow> Pipe cs v h'
      | ((v, err), h') \<Rightarrow> ((v, err), h'))"

text \<open>
  \<open>YFilter\<close> embeds the \<open>Filter\<close> interface; \<open>None\<close> is the nil interface, whose method call
  panics.  \<open>YFilters.Filters\<close> collects the embedded interface values.
\<close>

datatype 'f YFilter = YFilter (Filter: "'f option")

definition nil_Filter :: "('n, 'h) Filter" where
  "nil_Filter rn h = ((None, Some (Panic ''nil pointer dereference'')), h)"

definition YFilters_Filters :: "('n, 'h) Filter YFilter list \<Rightarrow> ('n, 'h) Filter list" where
  "YFilters_Filters y = map (\<lambda>yf. case Filter yf of None \<Rightarrow> nil_Filter | Some f \<Rightarrow> f) y"

datatype 'f FilterMatcher = FilterMatcher (fm_Kind: string) (fm_Filters: "'f YFilter list")

definition FilterMatcher_Filter :: "('n, 'h) Filter FilterMatcher \<Rightarrow> ('n, 'h) Filter" where
  "FilterMatcher_Filter t rn h =
     (case Pipe (YFilters_Filters (fm_Filters t)) rn h of
        ((v, err), h') \<Rightarrow>
          if v = None \<or> err \<noteq> None then ((None, err), h')
          else ((Some rn, err), h'))"

text \<open>
  Package regexp is outside the repository: \<open>Compile\<close> and \<open>ReplaceAllString\<close> are parameters,
  \<open>'r\<close> the type of compiled patterns.
\<close>

record 'r regexp =
  Compile :: "string \<Rightarrow> error + 'r"
  ReplaceAllString :: "'r \<Rightarrow> string \<Rightarrow> string \<Rightarrow> string"

datatype ValueReplacer = ValueReplacer
  (vr_Kind: string) (StringMatch: string) (RegexMatch: string) (Replace: string) (Count: int)

definition nil_deref :: "'n option \<times> error option" where
  "nil_deref = (None, Some (Panic ''nil pointer dereference''))"

definition ValueReplacer_Filter :: "'r regexp \<Rightarrow> ValueReplacer \<Rightarrow> (nat, heap) Filter" where
  "ValueReplacer_Filter re s object h =
     (let count = (if Count s = 0 then - 1 else Count s) in
      if StringMatch s \<noteq> [] then
        (case h object of
           None \<Rightarrow> (nil_deref, h)
         | Some n \<Rightarrow>
             ((Some object, None),
              h(object \<mapsto> set_Value n (strings_Replace (Value n) (StringMatch s) (Replace s) count))))
      else if RegexMatch s \<noteq> [] then
        (case Compile re (RegexMatch s) of
           Inl err \<Rightarrow>
             ((None, Some (Errorf (''ValueReplacer RegexMatch does not compile: '' @ Error err))), h)
         | Inr r \<Rightarrow>
             (case h object of
                None \<Rightarrow> (nil_deref, h)
              | Some n \<Rightarrow>
                  ((Some object, None),
                   h(object \<mapsto> set_Value n (ReplaceAllString re r (Value n) (Replace s))))))
      else ((None, Some (Errorf ''ValueReplacer missing StringMatch and RegexMatch'')), h))"

datatype PrefixSetter = PrefixSetter (ps_Kind: string) (ps_Value: string)

definition PrefixSetter_Filter :: "PrefixSetter \<Rightarrow> (nat, heap) Filter" where
  "PrefixSetter_Filter s object h =
     (case h object of
        None \<Rightarrow> (nil_deref, h)
      | Some n \<Rightarrow>
          if \<not> strings_HasPrefix (Value n) (ps_Value s)
          then ((Some object, None), h(object \<mapsto> set_Value n (ps_Value s @ Value n)))
          else ((Some object, None), h))"

datatype SuffixSetter = SuffixSetter (ss_Kind: string) (ss_Value: string)

definition SuffixSetter_Filter :: "SuffixSetter \<Rightarrow> (nat, heap) Filter" where
  "SuffixSetter_Filter s object h =
     (case h object of
        None \<Rightarrow> (nil_deref, h)
      | Some n \<Rightarrow>
          if \<not> strings_HasSuffix (Value n) (ss_Value s)
          then ((Some object, None), h(object \<mapsto> set_Value n (Value n @ ss_Value s)))
          else ((Some object, None), h))"

subsection \<open>The filter registry and declarative construction\<close>

text \<open>
  The structs of kfns.go, and the values a registry constructor can return.  The structs of
  the other nine registered filters are declared outside src; their instances carry no
  fields here.
\<close>

datatype AnnotationClearer = AnnotationClearer (ac_Kind: string) (ac_Key: string)

datatype AnnotationSetter = AnnotationSetter (as_Kind: string) (as_Key: string) (as_Value: string)

datatype AnnotationGetter = AnnotationGetter (ag_Kind: string) (ag_Key: string) (ag_Value: string)

datatype FilterV =
    F_AnnotationClearer AnnotationClearer
  | F_AnnotationGetter AnnotationGetter
  | F_AnnotationSetter AnnotationSetter
  | F_ElementAppender
  | F_ElementMatcher
  | F_FieldClearer
  | F_FilterMatcher "FilterV FilterMatcher"
  | F_FieldMatcher
  | F_FieldSetter
  | F_PathGetter
  | F_PathMatcher
  | F_Parser
  | F_PrefixSetter PrefixSetter
  | F_ValueReplacer ValueReplacer
  | F_SuffixSetter SuffixSetter
  | F_TeePiper

text \<open>
  The registry is a Go map; the association list gives one iteration order of its keys, and
  \<open>Filters_lookup\<close> is the map access \<open>Filters[kind]\<close>.
\<close>

definition Filters :: "(string \<times> (unit \<Rightarrow> FilterV)) list" where
  "Filters =
     [(''AnnotationClearer'', \<lambda>_. F_AnnotationClearer (AnnotationClearer [] [])),
      (''AnnotationGetter'', \<lambda>_. F_AnnotationGetter (AnnotationGetter [] [] [])),
      (''AnnotationSetter'', \<lambda>_. F_AnnotationSetter (AnnotationSetter [] [] [])),
      (''ElementAppender'', \<lambda>_. F_ElementAppender),
      (''ElementMatcher'', \<lambda>_. F_ElementMatcher),
      (''FieldClearer'', \<lambda>_. F_FieldClearer),
      (''FilterMatcher'', \<lambda>_. F_FilterMatcher (FilterMatcher [] [])),
      (''FieldMatcher'', \<lambda>_. F_FieldMatcher),
      (''FieldSetter'', \<lambda>_. F_FieldSetter),
      (''PathGetter'', \<lambda>_. F_PathGetter),
      (''PathMatcher'', \<lambda>_. F_PathMatcher),
      (''Parser'', \<lambda>_. F_Parser),
      (''PrefixSetter'', \<lambda>_. F_PrefixSetter (PrefixSetter [] [])),
      (''ValueReplacer'', \<lambda>_. F_ValueReplacer (ValueReplacer [] [] [] [] 0)),
      (''SuffixSetter'', \<lambda>_. F_SuffixSetter (SuffixSetter [] [])),
      (''TeePiper'', \<lambda>_. F_TeePiper)]"

text \<open>
  \<open>ResourceMeta\<close> is declared outside src; the code reads its \<open>Kind\<close> and \<open>ApiVersion\<close>.
\<close>

record ResourceMeta =
  meta_ApiVersion :: string
  meta_Kind :: string

definition zero_ResourceMeta :: ResourceMeta where
  "zero_ResourceMeta = \<lparr>meta_ApiVersion = [], meta_Kind = []\<rparr>"

text \<open>
  \<open>YFilter.UnmarshalYAML\<close>.  The closure \<open>unmarshal\<close> belongs to the YAML library: it fills the
  value it is given from the declaration and may fail.  \<open>unmarshal_meta\<close> is the closure at
  \<open>*ResourceMeta\<close>, \<open>unmarshal_filter\<close> the closure at the constructed filter.  The result is
  the returned error and the receiver \<open>y\<close> as the call leaves it.
\<close>

definition unsupported_kind :: "string \<Rightarrow> string list \<Rightarrow> error" where
  "unsupported_kind kind knownFilters =
     Errorf (''unsupported GrepFilter Kind '' @ kind @ '':  may be one of: ['' @
             strings_Join knownFilters '','' @ '']'')"

definition UnmarshalYAML ::
  "(ResourceMeta \<Rightarrow> error option \<times> ResourceMeta) \<Rightarrow> (FilterV \<Rightarrow> error option \<times> FilterV) \<Rightarrow>
   FilterV YFilter \<Rightarrow> error option \<times> FilterV YFilter" where
  "UnmarshalYAML unmarshal_meta unmarshal_filter y =
     (case unmarshal_meta zero_ResourceMeta of
        (Some err, _) \<Rightarrow> (Some err, y)
      | (None, meta) \<Rightarrow>
          (case map_of Filters (meta_Kind meta) of
             None \<Rightarrow>
               (let knownFilters = sort (map fst Filters)
                in (Some (unsupported_kind (meta_Kind meta) knownFilters), y))
           | Some filter' \<Rightarrow>
               (case unmarshal_filter (filter' ()) of
                  (Some err, f) \<Rightarrow> (Some err, YFilter (Some f))
                | (None, f) \<Rightarrow> (None, YFilter (Some f)))))"

section \<open>Package yaml: the node helpers the readers call\<close>

text \<open>
  Modelled from the spec: the methods of \<open>RNode\<close> and the filters \<open>PathGetter\<close> and
  \<open>FieldSetter\<close> are declared outside src.  The spec gives their contracts: \<open>Field(name)\<close>
  returns nil if the field is absent and never errors; a document declares its \<open>kind\<close> and
  \<open>apiVersion\<close> as fields of its root mapping; \<open>AnnotationSetter\<close> operates on
  \<open>metadata.annotations\<close> and creates the mappings on the way if they are absent;
  \<open>AnnotationGetter\<close> returns nil if the mapping or the key is absent.  They are written here
  over node trees as values: an in-place update of a node returns the updated tree.

  \<open>YNode\<close> steps from a document node to its root.  The fields of a mapping node are looked
  up and set by the \<open>Value\<close> of their key nodes.
\<close>

definition NewRNode :: "Node \<Rightarrow> Node" where
  "NewRNode n = n"

definition NewScalarRNode :: "string \<Rightarrow> Node" where
  "NewScalarRNode v = Node ScalarNode [] v []"

definition YNode :: "Node \<Rightarrow> Node" where
  "YNode rn =
     (if Kind rn = DocumentNode then (case Content rn of [] \<Rightarrow> rn | c # _ \<Rightarrow> c) else rn)"

fun lookup_field :: "string \<Rightarrow> Node list \<Rightarrow> Node option" where
  "lookup_field name (key # val # rest) =
     (if Value key = name then Some val else lookup_field name rest)"
| "lookup_field name _ = None"

fun set_field :: "string \<Rightarrow> Node \<Rightarrow> Node list \<Rightarrow> Node list option" where
  "set_field name v [] = Some [NewScalarRNode name, v]"
| "set_field name v [key] = None"
| "set_field name v (key # val # rest) =
     (if Value key = name then Some (key # v # rest)
      else map_option (\<lambda>rest'. key # val # rest') (set_field name v rest))"

definition Field :: "Node \<Rightarrow> string \<Rightarrow> Node option" where
  "Field rn field =
     (if Kind (YNode rn) \<noteq> MappingNode then None else lookup_field field (Content (YNode rn)))"

definition scalar_field :: "Node \<Rightarrow> string \<Rightarrow> string" where
  "scalar_field rn name = (case Field rn name of None \<Rightarrow> [] | Some v \<Rightarrow> Value v)"

text \<open>
  \<open>GetMeta\<close>: the caller drops its error (\<open>meta, _ := node.GetMeta()\<close>), so only the
  metadata it returns is modelled; a field that cannot be read is the empty string.
\<close>

definition GetMeta :: "Node \<Rightarrow> ResourceMeta" where
  "GetMeta rn =
     \<lparr>meta_ApiVersion = scalar_field rn ''apiVersion'', meta_Kind = scalar_field rn ''kind''\<rparr>"

definition IsMissingOrNull :: "Node option \<Rightarrow> bool" where
  "IsMissingOrNull node = (case node of None \<Rightarrow> True | Some rn \<Rightarrow> Tag (YNode rn) = NullNodeTag)"

definition empty_mapping :: Node where
  "empty_mapping = Node MappingNode [] [] []"

text \<open>
  \<open>with_field name f m\<close>: get the field \<open>name\<close> of the mapping \<open>m\<close>, creating it as an empty
  mapping when it is absent, run \<open>f\<close> on it and store the result back.  A node that is not a
  mapping is an error, as is a mapping whose content does not pair keys with values.
\<close>

definition with_field :: "string \<Rightarrow> (Node \<Rightarrow> error + Node) \<Rightarrow> Node \<Rightarrow> error + Node" where
  "with_field name f m =
     (if Kind m \<noteq> MappingNode then Inl (Errorf ''wrong Node Kind'')
      else
        (case f (case lookup_field name (Content m) of None \<Rightarrow> empty_mapping | Some c \<Rightarrow> c) of
           Inl err \<Rightarrow> Inl err
         | Inr c' \<Rightarrow>
             (case set_field name c' (Content m) of
                None \<Rightarrow> Inl (Panic ''index out of range'')
              | Some cs \<Rightarrow> Inr (Node (Kind m) (Tag m) (Value m) cs))))"

definition on_YNode :: "(Node \<Rightarrow> error + Node) \<Rightarrow> Node \<Rightarrow> error + Node" where
  "on_YNode f rn =
     (if Kind rn = DocumentNode then
        (case Content rn of
           [] \<Rightarrow> Inl (Panic ''index out of range'')
         | c # cs \<Rightarrow>
             (case f c of
                Inl err \<Rightarrow> Inl err
              | Inr c' \<Rightarrow> Inr (Node (Kind rn) (Tag rn) (Value rn) (c' # cs))))
      else f rn)"

text \<open>
  \<open>rn.Pipe(yaml.SetAnnotation(key, value))\<close> (kfns.go: the path \<open>metadata\<close>,
  \<open>annotations\<close> is got with creation, then the field \<open>key\<close> is set to a scalar), and
  \<open>rn.Pipe(yaml.GetAnnotation(key))\<close> as the string it finds.
\<close>

definition SetAnnotation :: "string \<Rightarrow> string \<Rightarrow> Node \<Rightarrow> error + Node" where
  "SetAnnotation key v =
     on_YNode (with_field ''metadata'' (with_field ''annotations''
       (with_field key (\<lambda>_. Inr (NewScalarRNode v)))))"

definition GetAnnotation :: "string \<Rightarrow> Node \<Rightarrow> string option" where
  "GetAnnotation key rn =
     (case Field rn ''metadata'' of
        None \<Rightarrow> None
      | Some m \<Rightarrow>
          (case Field m ''annotations'' of
             None \<Rightarrow> None
           | Some a \<Rightarrow> map_option Value (Field a key)))"

section \<open>Package kio: the byte reader (byteio\_reader.go)\<close>

text \<open>
  The annotation keys of package kioutil are declared outside src.  The index key is the one
  the comments of byteio\_reader.go name; the path and package keys are taken from the same
  namespace.  The proofs use only that the three keys are different.
\<close>

definition IndexAnnotation :: string where
  "IndexAnnotation = ''kyaml.kustomize.dev/kio/index''"

definition PathAnnotation :: string where
  "PathAnnotation = ''kyaml.kustomize.dev/kio/path''"

definition PackageAnnotation :: string where
  "PackageAnnotation = ''kyaml.kustomize.dev/kio/package''"

definition ResourceListKind :: string where
  "ResourceListKind = ''ResourceList''"

definition ResourceListApiVersion :: string where
  "ResourceListApiVersion = ''kyaml.kustomize.dev/v1alpha1''"

text \<open>
  A Go \<open>map[string]string\<close> is a reference: two struct fields can hold the same map, and a
  write through one is seen through the other.  The store holds the maps, each an association
  list from keys to values; a non-nil map value is the address of its cell, a nil map is
  \<open>None\<close>.  \<open>fresh\<close> is the first address not yet allocated.
\<close>

record store =
  cells :: "nat \<Rightarrow> (string \<times> string) list"
  fresh :: nat

definition alloc :: "store \<Rightarrow> nat \<times> store" where
  "alloc st = (fresh st, st\<lparr>cells := (cells st)(fresh st := []), fresh := Suc (fresh st)\<rparr>)"

text \<open>\<open>if m == nil { m = map[string]string{} }\<close>: the map, allocated when it is nil.\<close>

definition make_map :: "nat option \<Rightarrow> store \<Rightarrow> nat \<times> store" where
  "make_map m st = (case m of None \<Rightarrow> alloc st | Some a \<Rightarrow> (a, st))"

definition map_set :: "store \<Rightarrow> nat \<Rightarrow> string \<Rightarrow> string \<Rightarrow> store" where
  "map_set st a k v = st\<lparr>cells := (cells st)(a := AList.update k v (cells st a))\<rparr>"

definition map_get :: "(string \<times> string) list \<Rightarrow> string \<Rightarrow> string" where
  "map_get m k = (case map_of m k of None \<Rightarrow> [] | Some v \<Rightarrow> v)"

text \<open>
  \<open>ByteReader\<close>.  \<open>Reader\<close> is what \<open>io.Copy\<close> gets out of the \<open>io.Reader\<close>: the whole input,
  or the error of a failed read.
\<close>

record ByteReader =
  Reader :: "error + string"
  OmitReaderAnnotations :: bool
  SetAnnotations :: "nat option"
  FunctionConfig :: "Node option"
  WrappingApiVersion :: string
  WrappingKind :: string

definition isEmptyDocument :: "Node \<Rightarrow> error + bool" where
  "isEmptyDocument node =
     (if Kind node = DocumentNode then
        (case Content node of
           [] \<Rightarrow> Inl (Panic ''index out of range'')
         | c # _ \<Rightarrow> Inr (Tag c = NullNodeTag))
      else Inr False)"

text \<open>
  The loop of \<open>decode\<close> over the sorted keys: each key is set to the value the map holds for
  it; the first error ends the loop.
\<close>

fun set_annotations :: "string list \<Rightarrow> (string \<times> string) list \<Rightarrow> Node \<Rightarrow> error + Node" where
  "set_annotations [] m n = Inr n"
| "set_annotations (k # keys) m n =
     (case SetAnnotation k (map_get m k) n of
        Inl err \<Rightarrow> Inl err
      | Inr n' \<Rightarrow> set_annotations keys m n')"

text \<open>
  \<open>ByteReader.decode\<close>.  \<open>Decode\<close> is the decoder of the YAML library run on one segment:
  it returns the document node, \<open>io.EOF\<close> or a parse error.  The result is Go's pair (a nil
  node is \<open>None\<close>), the receiver and the store of maps.
\<close>

definition decode ::
  "(string \<Rightarrow> error + Node) \<Rightarrow> nat \<Rightarrow> string \<Rightarrow> ByteReader \<Rightarrow> store \<Rightarrow>
   (error + Node option) \<times> ByteReader \<times> store" where
  "decode Decode index v r st =
     (case Decode v of
        Inl err \<Rightarrow> (Inl err, r, st)
      | Inr node \<Rightarrow>
          (case isEmptyDocument node of
             Inl err \<Rightarrow> (Inl err, r, st)
           | Inr True \<Rightarrow> (Inr None, r, st)
           | Inr False \<Rightarrow>
               (let (a, st1) = make_map (SetAnnotations r) st;
                    r1 = r\<lparr>SetAnnotations := Some a\<rparr>;
                    st2 = (if \<not> OmitReaderAnnotations r
                           then map_set st1 a IndexAnnotation (Sprintf_d index) else st1);
                    keys = sort (map fst (cells st2 a))
                in case set_annotations keys (cells st2 a) node of
                     Inl err \<Rightarrow> (Inl err, r1, st2)
                   | Inr n \<Rightarrow> (Inr (Some (NewRNode n)), r1, st2))))"

text \<open>
  The loop of \<open>ByteReader.Read\<close> over the segments.  \<open>index\<close> is Go's \<open>int\<close> counter (it
  counts segments of one input, far below the range of a machine integer).  Every appended
  node carries a ghost tag that the code does not have: \<open>Direct\<close> for a document appended
  itself, \<open>Unwrapped\<close> for an item taken out of an envelope.  \<open>ByteReader_Read\<close> erases it.
\<close>

datatype origin = Direct | Unwrapped

fun Read_values ::
  "(string \<Rightarrow> error + Node) \<Rightarrow> string list \<Rightarrow> nat \<Rightarrow> (origin \<times> Node) list \<Rightarrow>
   ByteReader \<Rightarrow> store \<Rightarrow> (error + (origin \<times> Node) list) \<times> ByteReader \<times> store" where
  "Read_values Decode [] index output r st = (Inr output, r, st)"
| "Read_values Decode (v # values) index output r st =
     (case decode Decode index v r st of
        (Inl err, r1, st1) \<Rightarrow>
          if err = EOF then Read_values Decode values index output r1 st1
          else (Inl err, r1, st1)
      | (Inr node, r1, st1) \<Rightarrow>
          if IsMissingOrNull node then Read_values Decode values index output r1 st1
          else
            (case node of
               None \<Rightarrow> Read_values Decode values index output r1 st1
             | Some n \<Rightarrow>
                 (let meta = GetMeta n in
                  if (meta_Kind meta = ResourceListKind \<or> meta_Kind meta = ''List'') \<and>
                     Field n ''items'' \<noteq> None
                  then
                    (let r2 = r1\<lparr>WrappingKind := meta_Kind meta,
                                  WrappingApiVersion := meta_ApiVersion meta\<rparr>;
                         r3 = (case Field n ''functionConfig'' of
                                 None \<Rightarrow> r2
                               | Some fc \<Rightarrow> r2\<lparr>FunctionConfig := Some fc\<rparr>);
                         output' = (case Field n ''items'' of
                                      None \<Rightarrow> output
                                    | Some items \<Rightarrow>
                                        output @
                                        map (\<lambda>i. (Unwrapped, NewRNode i)) (Content (YNode items)))
                     in Read_values Decode values index output' r3 st1)
                  else Read_values Decode values (index + 1) (output @ [(Direct, n)]) r1 st1)))"

definition separator :: string where
  "separator = ''\<newline>---\<newline>''"

definition ByteReader_Read_tagged ::
  "(string \<Rightarrow> error + Node) \<Rightarrow> ByteReader \<Rightarrow> store \<Rightarrow>
   (error + (origin \<times> Node) list) \<times> ByteReader \<times> store" where
  "ByteReader_Read_tagged Decode r st =
     (case Reader r of
        Inl err \<Rightarrow> (Inl err, r, st)
      | Inr input \<Rightarrow> Read_values Decode (strings_Split input separator) 0 [] r st)"

definition ByteReader_Read ::
  "(string \<Rightarrow> error + Node) \<Rightarrow> ByteReader \<Rightarrow> store \<Rightarrow>
   (error + Node list) \<times> ByteReader \<times> store" where
  "ByteReader_Read Decode r st =
     (case ByteReader_Read_tagged Decode r st of
        (Inl err, r', st') \<Rightarrow> (Inl err, r', st')
      | (Inr output, r', st') \<Rightarrow> (Inr (map snd output), r', st'))"

text \<open>
  Two predicates on a segment, for stating what the reader does with it.  A segment is
  \<open>skipped\<close> when its decode signals end of input or yields an empty (null) document, and it
  \<open>stamps\<close> when its decode yields a document that is not empty, which is when \<open>decode\<close>
  reaches the annotation map.
\<close>

definition skipped :: "(string \<Rightarrow> error + Node) \<Rightarrow> string \<Rightarrow> bool" where
  "skipped Decode v =
     (case Decode v of Inl err \<Rightarrow> err = EOF | Inr node \<Rightarrow> isEmptyDocument node = Inr True)"

definition stamps :: "(string \<Rightarrow> error + Node) \<Rightarrow> string \<Rightarrow> bool" where
  "stamps Decode v =
     (case Decode v of Inl err \<Rightarrow> False | Inr node \<Rightarrow> isEmptyDocument node = Inr False)"

text \<open>The documents of a tagged output that were appended themselves.\<close>

definition directs :: "(origin \<times> Node) list \<Rightarrow> Node list" where
  "directs output = map snd (filter (\<lambda>x. fst x = Direct) output)"

text \<open>\<open>prepend acc res\<close> puts \<open>acc\<close> in front of the output of a result of the loop.\<close>

definition prepend ::
  "'a list \<Rightarrow> (error + 'a list) \<times> ByteReader \<times> store \<Rightarrow> (error + 'a list) \<times> ByteReader \<times> store" where
  "prepend acc res =
     (case res of
        (Inl err, r', st') \<Rightarrow> (Inl err, r', st')
      | (Inr out, r', st') \<Rightarrow> (Inr (acc @ out), r', st'))"

text \<open>
  The body of the loop of \<open>Read\<close> as a function of its own, for the proofs: the error that
  ends the loop, or the next \<open>index\<close> and the nodes to append.
\<close>

definition Read_step ::
  "(string \<Rightarrow> error + Node) \<Rightarrow> nat \<Rightarrow> string \<Rightarrow> ByteReader \<Rightarrow> store \<Rightarrow>
   (error + nat \<times> (origin \<times> Node) list) \<times> ByteReader \<times> store" where
  "Read_step Decode index v r st =
     (case decode Decode index v r st of
        (Inl err, r1, st1) \<Rightarrow>
          if err = EOF then (Inr (index, []), r1, st1) else (Inl err, r1, st1)
      | (Inr node, r1, st1) \<Rightarrow>
          if IsMissingOrNull node then (Inr (index, []), r1, st1)
          else
            (case node of
               None \<Rightarrow> (Inr (index, []), r1, st1)
             | Some n \<Rightarrow>
                 (let meta = GetMeta n in
                  if (meta_Kind meta = ResourceListKind \<or> meta_Kind meta = ''List'') \<and>
                     Field n ''items'' \<noteq> None
                  then
                    (let r2 = r1\<lparr>WrappingKind := meta_Kind meta,
                                  WrappingApiVersion := meta_ApiVersion meta\<rparr>;
                         r3 = (case Field n ''functionConfig'' of
                                 None \<Rightarrow> r2
                               | Some fc \<Rightarrow> r2\<lparr>FunctionConfig := Some fc\<rparr>);
                         items = (case Field n ''items'' of
                                    None \<Rightarrow> []
                                  | Some items \<Rightarrow>
                                      map (\<lambda>i. (Unwrapped, NewRNode i)) (Content (YNode items)))
                     in (Inr (index, items), r3, st1))
                  else (Inr (index + 1, [(Direct, n)]), r1, st1))))"

text \<open>
  For stating what a read does to the store: \<open>index_entry r st\<close> is the entry of the index
  key in the map of \<open>r\<close>, and \<open>only_index_written a st st'\<close> says that between two stores
  nothing was allocated and nothing changed but the entry of the index key in the map \<open>a\<close>.
\<close>

definition index_entry :: "ByteReader \<Rightarrow> store \<Rightarrow> string option" where
  "index_entry r st =
     (case SetAnnotations r of None \<Rightarrow> None | Some a \<Rightarrow> map_of (cells st a) IndexAnnotation)"

definition only_index_written :: "nat \<Rightarrow> store \<Rightarrow> store \<Rightarrow> bool" where
  "only_index_written a st st' =
     (fresh st' = fresh st \<and>
      (\<forall>b. b \<noteq> a \<longrightarrow> cells st' b = cells st b) \<and>
      (\<forall>k. k \<noteq> IndexAnnotation \<longrightarrow> map_of (cells st' a) k = map_of (cells st a) k))"

section \<open>Package kio: the package reader and read-writer (pkgio\_reader.go)\<close>

text \<open>
  What \<open>filepath.Walk\<close> meets below a path: a path whose \<open>lstat\<close> fails, a file, a
  directory whose names cannot be read, or a directory with its entries in the order in which
  \<open>Walk\<close> visits them.
\<close>

datatype tree =
    LstatFails error
  | RegularFile
  | ReadDirFails error
  | Directory dirents
and dirents =
    NoEntry
  | Dirent string tree dirents

datatype FileInfo = FileInfo (Name: string) (IsDir: bool)

text \<open>
  The collaborators of the package reader and read-writer, all outside src, as one record of
  parameters; \<open>'fs\<close> is the state of the file system.
  \<^item> \<open>os_Walk_tree fs path\<close>: what \<open>filepath.Walk\<close> meets at \<open>path\<close>;
  \<open>os_Open fs path\<close>: the error of \<open>os.Open\<close>, or the opened file as \<open>io.Copy\<close> reads it;
  \<open>os_Stat\<close> and \<open>os_Remove\<close>: the error they return, \<open>os_Remove\<close> also the file system
  it leaves.
  \<^item> \<open>filepath_Clean\<close>, \<open>filepath_Dir\<close>, \<open>filepath_Base\<close>, \<open>filepath_Rel\<close>, \<open>filepath_Join\<close>
  and \<open>filepath_Match\<close> of package path/filepath.
  \<^item> \<open>yaml_Decode\<close>: the decoder of the YAML library on one segment.
  \<^item> \<open>kioutil_GetFileAnnotations\<close>: the path and index annotations of a node, or an error.
  \<^item> \<open>LocalPackageWriter_Write\<close>: the package writer, given its fields \<open>PackagePath\<close>,
  \<open>ClearAnnotations\<close> and \<open>KeepReaderAnnotations\<close> and the nodes; it returns its error and
  the file system it leaves.
  \<^item> \<open>range_order keys\<close>: the order in which a \<open>for ... range\<close> over a Go map with these keys
  visits them (Go does not fix it).
\<close>

record 'fs env =
  os_Walk_tree :: "'fs \<Rightarrow> string \<Rightarrow> tree"
  os_Open :: "'fs \<Rightarrow> string \<Rightarrow> error + (error + string)"
  os_Stat :: "'fs \<Rightarrow> string \<Rightarrow> error option"
  os_Remove :: "string \<Rightarrow> 'fs \<Rightarrow> error option \<times> 'fs"
  filepath_Clean :: "string \<Rightarrow> string"
  filepath_Dir :: "string \<Rightarrow> string"
  filepath_Base :: "string \<Rightarrow> string"
  filepath_Rel :: "string \<Rightarrow> string \<Rightarrow> error + string"
  filepath_Join :: "string \<Rightarrow> string \<Rightarrow> string"
  filepath_Match :: "string \<Rightarrow> string \<Rightarrow> error + bool"
  yaml_Decode :: "string \<Rightarrow> error + Node"
  kioutil_GetFileAnnotations :: "Node \<Rightarrow> error + string \<times> string"
  LocalPackageWriter_Write :: "string \<Rightarrow> string list \<Rightarrow> bool \<Rightarrow> Node list \<Rightarrow> 'fs \<Rightarrow> error option \<times> 'fs"
  range_order :: "string list \<Rightarrow> string list"

text \<open>
  \<open>filepath.Walk\<close> and its recursion \<open>walk\<close>, after the Go library.  The walk function
  \<open>walkFn\<close> gets the path, the \<open>FileInfo\<close> (nil when \<open>lstat\<close> failed) and the error, and
  threads the state \<open>'s\<close> of the closure.
\<close>

type_synonym 's WalkFunc = "string \<Rightarrow> FileInfo option \<Rightarrow> error option \<Rightarrow> 's \<Rightarrow> error option \<times> 's"

text \<open>
  In the loop of \<open>walk\<close> over the names, \<open>SkipDir\<close> from a directory or from a path whose
  \<open>lstat\<close> failed only skips that entry; from a file it ends the walk like any error.
\<close>

fun skips_entry :: "tree \<Rightarrow> bool" where
  "skips_entry RegularFile = False"
| "skips_entry _ = True"

fun walk :: "(string \<Rightarrow> string \<Rightarrow> string) \<Rightarrow> 's WalkFunc \<Rightarrow> string \<Rightarrow> string \<Rightarrow> tree \<Rightarrow> 's \<Rightarrow> error option \<times> 's"
and walk_names :: "(string \<Rightarrow> string \<Rightarrow> string) \<Rightarrow> 's WalkFunc \<Rightarrow> string \<Rightarrow> dirents \<Rightarrow> 's \<Rightarrow> error option \<times> 's" where
  "walk Join walkFn path name (LstatFails err) s = walkFn path None (Some err) s"
| "walk Join walkFn path name RegularFile s = walkFn path (Some (FileInfo name False)) None s"
| "walk Join walkFn path name (ReadDirFails err) s =
     walkFn path (Some (FileInfo name True)) (Some err) s"
| "walk Join walkFn path name (Directory names) s =
     (case walkFn path (Some (FileInfo name True)) None s of
        (Some err1, s1) \<Rightarrow> (Some err1, s1)
      | (None, s1) \<Rightarrow> walk_names Join walkFn path names s1)"
| "walk_names Join walkFn path NoEntry s = (None, s)"
| "walk_names Join walkFn path (Dirent name t names) s =
     (case walk Join walkFn (Join path name) name t s of
        (Some err, s1) \<Rightarrow>
          if skips_entry t \<and> err = SkipDir
          then walk_names Join walkFn path names s1
          else (Some err, s1)
      | (None, s1) \<Rightarrow> walk_names Join walkFn path names s1)"

definition filepath_Walk :: "'fs env \<Rightarrow> 'fs \<Rightarrow> string \<Rightarrow> 's WalkFunc \<Rightarrow> 's \<Rightarrow> error option \<times> 's" where
  "filepath_Walk E fs root walkFn s =
     (case walk (filepath_Join E) walkFn root (filepath_Base E root) (os_Walk_tree E fs root) s of
        (err, s1) \<Rightarrow> (if err = Some SkipDir then None else err, s1))"

record LocalPackageReader =
  pr_Kind :: string
  pr_PackagePath :: string
  pr_PackageFileName :: string
  pr_MatchFilesGlob :: "string list"
  pr_IncludeSubpackages :: bool
  pr_ErrorIfNonResources :: bool
  pr_OmitReaderAnnotations :: bool
  pr_SetAnnotations :: "nat option"

definition defaultMatch :: "string list" where
  "defaultMatch = [''*.yaml'', ''*.yml'']"

text \<open>\<open>shouldSkipFile\<close>: the loop over the globs, with the name of the file.\<close>

fun shouldSkipFile :: "'fs env \<Rightarrow> string list \<Rightarrow> string \<Rightarrow> bool \<times> error option" where
  "shouldSkipFile E [] name = (False, None)"
| "shouldSkipFile E (g # globs) name =
     (case filepath_Match E g name of
        Inl err \<Rightarrow> (False, Some err)
      | Inr match \<Rightarrow> if match then (True, None) else shouldSkipFile E globs name)"

definition shouldSkipDir :: "'fs env \<Rightarrow> 'fs \<Rightarrow> LocalPackageReader \<Rightarrow> string \<Rightarrow> error option" where
  "shouldSkipDir E fs r path =
     (if pr_PackageFileName r = [] then None
      else
        (case os_Stat E fs (filepath_Join E path (pr_PackageFileName r)) of
           Some err \<Rightarrow> if IsNotExist err then None else Some err
         | None \<Rightarrow> if \<not> pr_IncludeSubpackages r then Some SkipDir else None))"

definition initReaderAnnotations ::
  "'fs env \<Rightarrow> LocalPackageReader \<Rightarrow> string \<Rightarrow> store \<Rightarrow> LocalPackageReader \<times> store" where
  "initReaderAnnotations E r path st =
     (let (a, st1) = make_map (pr_SetAnnotations r) st;
          r1 = r\<lparr>pr_SetAnnotations := Some a\<rparr>;
          st2 = (if \<not> pr_OmitReaderAnnotations r
                 then map_set (map_set st1 a PackageAnnotation (filepath_Dir E path))
                        a PathAnnotation path
                 else st1)
      in (r1, st2))"

definition readFile ::
  "'fs env \<Rightarrow> 'fs \<Rightarrow> LocalPackageReader \<Rightarrow> string \<Rightarrow> store \<Rightarrow> (error + Node list) \<times> store" where
  "readFile E fs r path st =
     (case os_Open E fs path of
        Inl err \<Rightarrow> (Inl err, st)
      | Inr f \<Rightarrow>
          (let rr = \<lparr>Reader = f,
                     OmitReaderAnnotations = pr_OmitReaderAnnotations r,
                     SetAnnotations = pr_SetAnnotations r,
                     FunctionConfig = None, WrappingApiVersion = [], WrappingKind = []\<rparr>
           in case ByteReader_Read (yaml_Decode E) rr st of (res, rr', st') \<Rightarrow> (res, st')))"

text \<open>
  The state of the closure that \<open>LocalPackageReader.Read\<close> passes to \<open>filepath.Walk\<close>: the
  receiver \<open>r\<close> (a copy of the caller's struct: \<open>Read\<close> has a value receiver), the variables
  \<open>operand\<close> and \<open>pathRelativeTo\<close>, and the store of maps.
\<close>

record walk_state =
  ws_r :: LocalPackageReader
  ws_operand :: "Node list"
  ws_pathRelativeTo :: string
  ws_store :: store

definition Read_walkFn :: "'fs env \<Rightarrow> 'fs \<Rightarrow> walk_state WalkFunc" where
  "Read_walkFn E fs path info err s =
     (case err of
        Some e \<Rightarrow> (Some e, s)
      | None \<Rightarrow>
          (case info of
             None \<Rightarrow> (Some (Panic ''nil pointer dereference''), s)
           | Some info \<Rightarrow>
               if path = pr_PackagePath (ws_r s) \<and> IsDir info
               then (None, s\<lparr>ws_pathRelativeTo := pr_PackagePath (ws_r s)\<rparr>)
               else
                 (let s1 = (if path = pr_PackagePath (ws_r s)
                            then s\<lparr>ws_pathRelativeTo := filepath_Dir E (pr_PackagePath (ws_r s))\<rparr>
                            else s)
                  in if IsDir info then (shouldSkipDir E fs (ws_r s1) path, s1)
                     else
                       (case shouldSkipFile E (pr_MatchFilesGlob (ws_r s1)) (Name info) of
                          (_, Some e) \<Rightarrow> (Some e, s1)
                        | (match, None) \<Rightarrow>
                            if \<not> match then (None, s1)
                            else
                              (case filepath_Rel E (ws_pathRelativeTo s1) path of
                                 Inl e \<Rightarrow> (Some e, s1)
                               | Inr path' \<Rightarrow>
                                   (case initReaderAnnotations E (ws_r s1) path' (ws_store s1) of
                                      (r', st1) \<Rightarrow>
                                        (case readFile E fs r'
                                                (filepath_Join E (ws_pathRelativeTo s1) path') st1 of
                                           (Inl e, st2) \<Rightarrow>
                                             (Some e, s1\<lparr>ws_r := r', ws_store := st2\<rparr>)
                                         | (Inr nodes, st2) \<Rightarrow>
                                             (None, s1\<lparr>ws_r := r', ws_store := st2,
                                                        ws_operand := ws_operand s1 @ nodes\<rparr>))))))))"

text \<open>
  \<open>LocalPackageReader.Read\<close> returns Go's pair: \<open>operand\<close> as far as the walk got, and the
  error.  The caller's struct is not changed (value receiver); the store of maps is.
\<close>

definition LocalPackageReader_Read ::
  "'fs env \<Rightarrow> LocalPackageReader \<Rightarrow> 'fs \<Rightarrow> store \<Rightarrow> (Node list \<times> error option) \<times> store" where
  "LocalPackageReader_Read E r fs st =
     (if pr_PackagePath r = [] then (([], Some (Errorf ''must specify package path'')), st)
      else
        (let r1 = (if length (pr_MatchFilesGlob r) = 0 then r\<lparr>pr_MatchFilesGlob := defaultMatch\<rparr>
                   else r);
             r2 = r1\<lparr>pr_PackagePath := filepath_Clean E (pr_PackagePath r1)\<rparr>;
             s0 = \<lparr>ws_r = r2, ws_operand = [], ws_pathRelativeTo = [], ws_store = st\<rparr>
         in case filepath_Walk E fs (pr_PackagePath r2) (Read_walkFn E fs) s0 of
              (err, s) \<Rightarrow> ((ws_operand s, err), ws_store s)))"

text \<open>
  \<open>LocalPackageReadWriter\<close>.  The set \<open>files\<close> (package sets, outside src) is a list without
  repetitions: \<open>Insert\<close> is \<open>List.insert\<close>, \<open>Difference\<close> keeps the elements that are not in
  the other set, and the nil set of a fresh struct is the empty list.
\<close>

record LocalPackageReadWriter =
  rw_Kind :: string
  rw_KeepReaderAnnotations :: bool
  rw_PackagePath :: string
  rw_PackageFileName :: string
  rw_MatchFilesGlob :: "string list"
  rw_IncludeSubpackages :: bool
  rw_ErrorIfNonResources :: bool
  rw_OmitReaderAnnotations :: bool
  rw_SetAnnotations :: "nat option"
  rw_NoDeleteFiles :: bool
  files :: "string list"

definition Difference :: "string list \<Rightarrow> string list \<Rightarrow> string list" where
  "Difference s s2 = filter (\<lambda>k. k \<notin> set s2) s"

fun getFiles_loop :: "'fs env \<Rightarrow> Node list \<Rightarrow> string list \<Rightarrow> error + string list" where
  "getFiles_loop E [] val = Inr val"
| "getFiles_loop E (n # nodes) val =
     (case kioutil_GetFileAnnotations E n of
        Inl err \<Rightarrow> Inl err
      | Inr (path, index) \<Rightarrow> getFiles_loop E nodes (List.insert path val))"

definition getFiles :: "'fs env \<Rightarrow> Node list \<Rightarrow> error + string list" where
  "getFiles E nodes = getFiles_loop E nodes []"

text \<open>
  \<open>Read\<close> assigns \<open>r.files, err = r.getFiles(nodes)\<close> before it looks at \<open>err\<close>: when
  \<open>getFiles\<close> fails, the nil set it returns is already in \<open>r.files\<close>.
\<close>

definition LocalPackageReadWriter_Read ::
  "'fs env \<Rightarrow> LocalPackageReadWriter \<Rightarrow> 'fs \<Rightarrow> store \<Rightarrow>
   (error + Node list) \<times> LocalPackageReadWriter \<times> store" where
  "LocalPackageReadWriter_Read E r fs st =
     (case LocalPackageReader_Read E
             \<lparr>pr_Kind = [], pr_PackagePath = rw_PackagePath r, pr_PackageFileName = [],
              pr_MatchFilesGlob = rw_MatchFilesGlob r,
              pr_IncludeSubpackages = rw_IncludeSubpackages r,
              pr_ErrorIfNonResources = rw_ErrorIfNonResources r,
              pr_OmitReaderAnnotations = False,
              pr_SetAnnotations = rw_SetAnnotations r\<rparr> fs st of
        ((nodes, Some err), st') \<Rightarrow> (Inl err, r, st')
      | ((nodes, None), st') \<Rightarrow>
          if \<not> rw_NoDeleteFiles r then
            (case getFiles E nodes of
               Inl err \<Rightarrow> (Inl err, r\<lparr>files := []\<rparr>, st')
             | Inr fs' \<Rightarrow> (Inr nodes, r\<lparr>files := fs'\<rparr>, st'))
          else (Inr nodes, r, st'))"

text \<open>The loop of \<open>Write\<close> over \<open>deleteFiles\<close>: the first failing \<open>os.Remove\<close> ends it.\<close>

fun remove_files :: "'fs env \<Rightarrow> string \<Rightarrow> string list \<Rightarrow> 'fs \<Rightarrow> error option \<times> 'fs" where
  "remove_files E PackagePath [] fs = (None, fs)"
| "remove_files E PackagePath (f # deleteFiles) fs =
     (case os_Remove E (filepath_Join E PackagePath f) fs of
        (Some err, fs1) \<Rightarrow> (Some err, fs1)
      | (None, fs1) \<Rightarrow> remove_files E PackagePath deleteFiles fs1)"

text \<open>\<open>for k := range r.SetAnnotations { clear = append(clear, k) }\<close>\<close>

definition clear_annotations :: "'fs env \<Rightarrow> LocalPackageReadWriter \<Rightarrow> store \<Rightarrow> string list" where
  "clear_annotations E r st =
     (case rw_SetAnnotations r of
        None \<Rightarrow> []
      | Some a \<Rightarrow> range_order E (map fst (cells st a)))"

definition LocalPackageReadWriter_Write ::
  "'fs env \<Rightarrow> LocalPackageReadWriter \<Rightarrow> Node list \<Rightarrow> 'fs \<Rightarrow> store \<Rightarrow>
   error option \<times> LocalPackageReadWriter \<times> 'fs" where
  "LocalPackageReadWriter_Write E r nodes fs st =
     (case getFiles E nodes of
        Inl err \<Rightarrow> (Some err, r, fs)
      | Inr newFiles \<Rightarrow>
          (let clear = clear_annotations E r st
           in case LocalPackageWriter_Write E (rw_PackagePath r) clear
                     (rw_KeepReaderAnnotations r) nodes fs of
                (Some err, fs1) \<Rightarrow> (Some err, r, fs1)
              | (None, fs1) \<Rightarrow>
                  (let deleteFiles = Difference (files r) newFiles
                   in case remove_files E (rw_PackagePath r) (range_order E deleteFiles) fs1 of
                        (err, fs2) \<Rightarrow> (err, r, fs2))))"

text \<open>
  For stating what the read-writer does: the path annotations of a list of nodes, as
  \<open>kioutil.GetFileAnnotations\<close> reads them, and the file system after \<open>os.Remove\<close> was called
  on each of the relative paths joined to \<open>PackagePath\<close>, in order.
\<close>

definition path_annotations :: "'fs env \<Rightarrow> Node list \<Rightarrow> string list" where
  "path_annotations E nodes =
     map (\<lambda>n. case kioutil_GetFileAnnotations E n of Inl err \<Rightarrow> [] | Inr (path, index) \<Rightarrow> path) nodes"

definition removed :: "'fs env \<Rightarrow> string \<Rightarrow> string list \<Rightarrow> 'fs \<Rightarrow> 'fs" where
  "removed E PackagePath fs_list fs =
     foldl (\<lambda>fs f. snd (os_Remove E (filepath_Join E PackagePath f) fs)) fs fs_list"

section \<open>Concrete instances of the external collaborators\<close>

text \<open>
  A regexp package that only knows literal patterns: enough to run \<open>ValueReplacer\<close> on its
  regex path.
\<close>

definition literal_regexp :: "string regexp" where
  "literal_regexp =
     \<lparr>Compile = (\<lambda>p. if p = ''('' then Inl (Errorf ''missing closing )'') else Inr p),
      ReplaceAllString = (\<lambda>r src repl. strings_Replace src r repl (- 1))\<rparr>"

text \<open>
  Node builders, and a decoder that knows the documents of the scenarios: the empty segment
  is end of input, \<open>~\<close> is the null document, and one trailing newline is ignored.
\<close>

definition str_node :: "string \<Rightarrow> Node" where
  "str_node v = Node ScalarNode ''!!str'' v []"

definition int_node :: "string \<Rightarrow> Node" where
  "int_node v = Node ScalarNode ''!!int'' v []"

definition map_node :: "(string \<times> Node) list \<Rightarrow> Node" where
  "map_node kvs = Node MappingNode ''!!map'' [] (concat (map (\<lambda>(k, v). [str_node k, v]) kvs))"

definition seq_node :: "Node list \<Rightarrow> Node" where
  "seq_node xs = Node SequenceNode ''!!seq'' [] xs"

definition document :: "Node \<Rightarrow> Node" where
  "document root = Node DocumentNode [] [] [root]"

definition chomp :: "string \<Rightarrow> string" where
  "chomp s = (if s \<noteq> [] \<and> last s = CHR 0x0A then butlast s else s)"

definition example_Decode :: "string \<Rightarrow> error + Node" where
  "example_Decode s =
     (if chomp s = [] then Inl EOF
      else if chomp s = ''~'' then Inr (document (Node ScalarNode NullNodeTag ''~'' []))
      else if chomp s = ''a: 1'' then Inr (document (map_node [(''a'', int_node ''1'')]))
      else if chomp s = ''b: 2'' then Inr (document (map_node [(''b'', int_node ''2'')]))
      else if chomp s = ''c: 3'' then Inr (document (map_node [(''c'', int_node ''3'')]))
      else if chomp s =
        ''kind: ResourceList\<newline>apiVersion: kyaml.kustomize.dev/v1alpha1\<newline>items:\<newline>- a: 1\<newline>- b: 2''
      then Inr (document (map_node
             [(''kind'', str_node ''ResourceList''),
              (''apiVersion'', str_node ''kyaml.kustomize.dev/v1alpha1''),
              (''items'', seq_node [map_node [(''a'', int_node ''1'')],
                                   map_node [(''b'', int_node ''2'')]])]))
      else if chomp s =
        ''kind: List\<newline>items:\<newline>- metadata:\<newline>    annotations:\<newline>      kyaml.kustomize.dev/kio/path: ../x.yaml''
      then Inr (document (map_node
             [(''kind'', str_node ''List''),
              (''items'', seq_node
                 [map_node [(''metadata'',
                    map_node [(''annotations'',
                      map_node [(''kyaml.kustomize.dev/kio/path'', str_node ''../x.yaml'')])])]])]))
      else Inl (Errorf ''yaml: document not in the table''))"

definition example_ByteReader :: "string \<Rightarrow> ByteReader" where
  "example_ByteReader input =
     \<lparr>Reader = Inr input, OmitReaderAnnotations = False, SetAnnotations = None,
      FunctionConfig = None, WrappingApiVersion = [], WrappingKind = []\<rparr>"

definition empty_store :: store where
  "empty_store = \<lparr>cells = (\<lambda>_. []), fresh = 0\<rparr>"

text \<open>The nodes that reading the scenario documents produces.\<close>

definition stamped_doc :: "string \<Rightarrow> string \<Rightarrow> string \<Rightarrow> Node" where
  "stamped_doc k v index =
     document (Node MappingNode ''!!map'' []
       [str_node k, int_node v,
        Node ScalarNode [] ''metadata'' [],
        Node MappingNode [] []
          [Node ScalarNode [] ''annotations'' [],
           Node MappingNode [] []
             [Node ScalarNode [] IndexAnnotation [], Node ScalarNode [] index []]]])"

text \<open>
  A file system with flat directories: the state is the list of the files, each a path with
  its content.  A glob is a literal name or \<open>*\<close> followed by a literal suffix, and the package
  writer creates the files that the path annotations of the nodes name, leaving existing
  files as they are.
\<close>

text \<open>
  \<open>filepath.Clean\<close> and \<open>filepath.Join\<close> after the Go library, for the separator \<open>/\<close>: the
  path is cut into its elements, empty elements and \<open>.\<close> are dropped, \<open>..\<close> drops the element
  before it (at the root it is dropped itself, at the start of a relative path it stays),
  and an empty result is \<open>.\<close>; \<open>Join\<close> joins the non-empty elements and cleans the result.
\<close>

definition clean_step :: "bool \<Rightarrow> string list \<Rightarrow> string \<Rightarrow> string list" where
  "clean_step rooted stack elem =
     (if elem = [] \<or> elem = ''.'' then stack
      else if elem = ''..'' then
        (case stack of
           [] \<Rightarrow> if rooted then [] else [''..'']
         | e # rest \<Rightarrow> if e = ''..'' then ''..'' # stack else rest)
      else elem # stack)"

definition example_Clean :: "string \<Rightarrow> string" where
  "example_Clean p =
     (if p = [] then ''.''
      else
        (let rooted = (hd p = CHR ''/'');
             body = strings_Join (rev (foldl (clean_step rooted) [] (strings_Split p ''/''))) ''/''
         in if rooted then ''/'' @ body else if body = [] then ''.'' else body))"

definition example_Join :: "string \<Rightarrow> string \<Rightarrow> string" where
  "example_Join a b =
     (if a = [] \<and> b = [] then []
      else example_Clean (strings_Join (filter (\<lambda>e. e \<noteq> []) [a, b]) ''/''))"

definition example_Dir :: "string \<Rightarrow> string" where
  "example_Dir p =
     (if CHR ''/'' \<in> set p then rev (tl (dropWhile (\<lambda>c. c \<noteq> CHR ''/'') (rev p))) else ''.'')"

definition example_Base :: "string \<Rightarrow> string" where
  "example_Base p = rev (takeWhile (\<lambda>c. c \<noteq> CHR ''/'') (rev p))"

definition example_Rel :: "string \<Rightarrow> string \<Rightarrow> error + string" where
  "example_Rel basepath targpath =
     (if prefix (basepath @ ''/'') targpath then Inr (drop (length basepath + 1) targpath)
      else Inl (Errorf ''Rel: cannot make the path relative''))"

definition example_Match :: "string \<Rightarrow> string \<Rightarrow> error + bool" where
  "example_Match pattern name =
     (case pattern of
        [] \<Rightarrow> Inr (name = [])
      | c # suf \<Rightarrow> if c = CHR ''*'' then Inr (suffix suf name) else Inr (pattern = name))"

definition example_Walk_tree :: "(string \<times> string) list \<Rightarrow> string \<Rightarrow> tree" where
  "example_Walk_tree fs root =
     (if root \<in> fst ` set fs then RegularFile
      else Directory
        (foldr (\<lambda>(p, c) names.
                  if prefix (root @ ''/'') p then Dirent (example_Base p) RegularFile names
                  else names)
           fs NoEntry))"

definition example_GetFileAnnotations :: "Node \<Rightarrow> error + string \<times> string" where
  "example_GetFileAnnotations n =
     Inr (case GetAnnotation PathAnnotation n of None \<Rightarrow> [] | Some p \<Rightarrow> p,
          case GetAnnotation IndexAnnotation n of None \<Rightarrow> [] | Some i \<Rightarrow> i)"

definition example_Remove ::
  "string \<Rightarrow> (string \<times> string) list \<Rightarrow> error option \<times> (string \<times> string) list" where
  "example_Remove path fs =
     (if path \<in> fst ` set fs then (None, filter (\<lambda>(p, c). p \<noteq> path) fs)
      else (Some ErrNotExist, fs))"

definition example_Writer ::
  "string \<Rightarrow> string list \<Rightarrow> bool \<Rightarrow> Node list \<Rightarrow> (string \<times> string) list \<Rightarrow>
   error option \<times> (string \<times> string) list" where
  "example_Writer PackagePath clear keep nodes fs =
     (None,
      foldl (\<lambda>fs n.
               case GetAnnotation PathAnnotation n of
                 None \<Rightarrow> fs
               | Some p \<Rightarrow>
                   if example_Join PackagePath p \<in> fst ` set fs then fs
                   else fs @ [(example_Join PackagePath p, [])])
        fs nodes)"

definition example_env :: "(string \<times> string) list env" where
  "example_env =
     \<lparr>os_Walk_tree = example_Walk_tree,
      os_Open = (\<lambda>fs path. case map_of fs path of None \<Rightarrow> Inl ErrNotExist | Some c \<Rightarrow> Inr (Inr c)),
      os_Stat = (\<lambda>fs path. case map_of fs path of None \<Rightarrow> Some ErrNotExist | Some c \<Rightarrow> None),
      os_Remove = example_Remove,
      filepath_Clean = example_Clean,
      filepath_Dir = example_Dir,
      filepath_Base = example_Base,
      filepath_Rel = example_Rel,
      filepath_Join = example_Join,
      filepath_Match = example_Match,
      yaml_Decode = example_Decode,
      kioutil_GetFileAnnotations = example_GetFileAnnotations,
      LocalPackageWriter_Write = example_Writer,
      range_order = (\<lambda>keys. keys)\<rparr>"

definition example_fs :: "(string \<times> string) list" where
  "example_fs = [(''pkg/a.yaml'', ''a: 1''), (''pkg/b.yaml'', ''b: 2''), (''pkg/c.yaml'', ''c: 3'')]"

definition example_ReadWriter :: LocalPackageReadWriter where
  "example_ReadWriter =
     \<lparr>rw_Kind = [], rw_KeepReaderAnnotations = False, rw_PackagePath = ''pkg'',
      rw_PackageFileName = [], rw_MatchFilesGlob = [], rw_IncludeSubpackages = False,
      rw_ErrorIfNonResources = False, rw_OmitReaderAnnotations = False,
      rw_SetAnnotations = None, rw_NoDeleteFiles = False, files = []\<rparr>"

text \<open>A document \<open>k: v\<close> as the package reader returns it from the file \<open>path\<close>.\<close>

definition package_doc :: "string \<Rightarrow> string \<Rightarrow> string \<Rightarrow> string \<Rightarrow> string \<Rightarrow> Node" where
  "package_doc k v index package path =
     document (Node MappingNode ''!!map'' []
       [str_node k, int_node v,
        Node ScalarNode [] ''metadata'' [],
        Node MappingNode [] []
          [Node ScalarNode [] ''annotations'' [],
           Node MappingNode [] []
             [Node ScalarNode [] IndexAnnotation [], Node ScalarNode [] index [],
              Node ScalarNode [] PackageAnnotation [], Node ScalarNode [] package [],
              Node ScalarNode [] PathAnnotation [], Node ScalarNode [] path []]]])"

definition example_Reader :: LocalPackageReader where
  "example_Reader =
     \<lparr>pr_Kind = [], pr_PackagePath = ''pkg'', pr_PackageFileName = [],
      pr_MatchFilesGlob = defaultMatch, pr_IncludeSubpackages = False,
      pr_ErrorIfNonResources = False, pr_OmitReaderAnnotations = False,
      pr_SetAnnotations = None\<rparr>"

text \<open>A byte reader whose caller supplied the map at address 0, and the store with that map.\<close>

definition caller_store :: store where
  "caller_store = \<lparr>cells = (\<lambda>_. [])(0 := [(''owner'', ''me'')]), fresh = 1\<rparr>"

definition caller_ByteReader :: "string \<Rightarrow> ByteReader" where
  "caller_ByteReader input = (example_ByteReader input)\<lparr>SetAnnotations := Some 0\<rparr>"

text \<open>
  A package whose one file is a \<open>List\<close> with an item that carries a path annotation of its
  own, beside a file outside the package.
\<close>

definition list_input :: string where
  "list_input =
     ''kind: List\<newline>items:\<newline>- metadata:\<newline>    annotations:\<newline>      kyaml.kustomize.dev/kio/path: ../x.yaml\<newline>''"

definition outside_item :: Node where
  "outside_item =
     map_node [(''metadata'',
       map_node [(''annotations'', map_node [(PathAnnotation, str_node ''../x.yaml'')])])]"

definition traversal_fs :: "(string \<times> string) list" where
  "traversal_fs = [(''pkg/list.yaml'', list_input), (''x.yaml'', ''c: 3'')]"

text \<open>The inputs and results of the scenarios.\<close>

definition interleaved_input :: string where
  "interleaved_input =
     ''\<newline>---\<newline>a: 1\<newline>---\<newline>~\<newline>---\<newline>kind: ResourceList\<newline>apiVersion: kyaml.kustomize.dev/v1alpha1\<newline>items:\<newline>- a: 1\<newline>- b: 2\<newline>---\<newline>b: 2\<newline>''"

definition padded_input :: string where
  "padded_input = ''\<newline>---\<newline>a: 1\<newline>---\<newline>~\<newline>---\<newline>''"

definition envelope_input :: string where
  "envelope_input =
     ''kind: ResourceList\<newline>apiVersion: kyaml.kustomize.dev/v1alpha1\<newline>items:\<newline>- a: 1\<newline>- b: 2\<newline>''"

definition stamped_envelope :: Node where
  "stamped_envelope =
     document (Node MappingNode ''!!map'' []
       [str_node ''kind'', str_node ''ResourceList'',
        str_node ''apiVersion'', str_node ''kyaml.kustomize.dev/v1alpha1'',
        str_node ''items'',
        seq_node [map_node [(''a'', int_node ''1'')], map_node [(''b'', int_node ''2'')]],
        Node ScalarNode [] ''metadata'' [],
        Node MappingNode [] []
          [Node ScalarNode [] ''annotations'' [],
           Node MappingNode [] []
             [Node ScalarNode [] IndexAnnotation [], Node ScalarNode [] ''0'' []]]])"

definition two_documents :: string where
  "two_documents = ''a: 1\<newline>---\<newline>b: 2\<newline>''"

definition read_store :: store where
  "read_store =
     \<lparr>cells = (\<lambda>_. [])(0 := [(PackageAnnotation, ''.''), (PathAnnotation, ''c.yaml''),
                              (IndexAnnotation, ''0'')]),
      fresh = 1\<rparr>"

section \<open>Properties of the strings package\<close>

lemma strings_Split_not_Nil: "sep \<noteq> [] \<Longrightarrow> strings_Split s sep \<noteq> []"
  by (subst strings_Split.simps) (simp split: option.splits)

lemma strings_Index_prefix:
  "strings_Index s sep = Some m \<Longrightarrow> prefix sep (drop m s)"
proof (induction s arbitrary: m)
  case Nil
  then show ?case by (simp split: if_splits)
next
  case (Cons c cs)
  then show ?case by (auto split: if_splits)
qed

lemma strings_Index_cut:
  assumes "strings_Index s sep = Some m"
  shows "s = take m s @ sep @ drop (m + length sep) s"
proof -
  from assms obtain zs where zs: "drop m s = sep @ zs"
    using strings_Index_prefix [of s sep m] by (auto simp: prefix_def)
  then have "drop (length sep) (drop m s) = zs" by simp
  then have "drop (m + length sep) s = zs" by (simp add: add.commute)
  with zs have "drop m s = sep @ drop (m + length sep) s" by simp
  then have "take m s @ drop m s = take m s @ sep @ drop (m + length sep) s" by simp
  then show ?thesis by simp
qed

lemma strings_Join_Cons:
  "ys \<noteq> [] \<Longrightarrow> strings_Join (x # ys) sep = x @ sep @ strings_Join ys sep"
  by (cases ys) simp_all

text \<open>Joining the pieces of a split with the separator gives the string back.\<close>

lemma strings_Join_Split:
  "sep \<noteq> [] \<Longrightarrow> strings_Join (strings_Split s sep) sep = s"
proof (induction s sep rule: strings_Split.induct)
  case (1 s sep)
  show ?case
  proof (cases "strings_Index s sep")
    case None
    with 1 show ?thesis by (subst strings_Split.simps) simp
  next
    case (Some m)
    with 1 have IH: "strings_Join (strings_Split (drop (m + length sep) s) sep) sep =
        drop (m + length sep) s"
      by simp
    have "strings_Join (strings_Split s sep) sep =
        take m s @ sep @ strings_Join (strings_Split (drop (m + length sep) s) sep) sep"
      using "1.prems" Some
      by (subst strings_Split.simps) (simp add: strings_Join_Cons strings_Split_not_Nil)
    also have "\<dots> = s"
      using strings_Index_cut [OF Some] IH by simp
    finally show ?thesis .
  qed
qed

text \<open>
  An unlimited replacement replaces every instance: it is the split at \<open>old\<close> joined with
  \<open>new\<close>.
\<close>

lemma replace_instances_all:
  "n < 0 \<Longrightarrow> old \<noteq> [] \<Longrightarrow>
   replace_instances s old new n = strings_Join (strings_Split s old) new"
proof (induction s old new n rule: replace_instances.induct)
  case (1 s old new n)
  show ?case
  proof (cases "strings_Index s old")
    case None
    with 1 show ?thesis
      by (subst replace_instances.simps, subst strings_Split.simps) simp
  next
    case (Some j)
    with 1 have IH: "replace_instances (drop (j + length old) s) old new (n - 1) =
        strings_Join (strings_Split (drop (j + length old) s) old) new"
      by simp
    obtain y ys where ys: "strings_Split (drop (j + length old) s) old = y # ys"
      using strings_Split_not_Nil [OF "1.prems"(2)] by (meson list.exhaust)
    show ?thesis
      using 1(2,3) Some IH ys
      by (subst replace_instances.simps, subst strings_Split.simps) (simp add: ys)
  qed
qed

lemma strings_Replace_all:
  assumes "old \<noteq> []"
  shows "strings_Replace s old new (- 1) = strings_Join (strings_Split s old) new"
proof (cases "old = new")
  case True
  with assms show ?thesis by (simp add: strings_Replace_def strings_Join_Split)
next
  case False
  with assms show ?thesis by (simp add: strings_Replace_def replace_instances_all)
qed

section \<open>Properties of the filters\<close>

text \<open>A pipeline of filters that write nothing leaves the heap as it was.\<close>

lemma Pipe_read_only:
  assumes "\<forall>f\<in>set cs. \<forall>n k. snd (f n k) = k"
  shows "snd (Pipe cs rn h) = h"
  using assms
proof (induction cs arbitrary: rn)
  case Nil
  show ?case by simp
next
  case (Cons c cs)
  from Cons.prems have c: "snd (c rn h) = h" by simp
  obtain v err h' where r: "c rn h = ((v, err), h')" by (cases "c rn h") auto
  with c have h': "h' = h" by simp
  show ?case
  proof (cases "\<exists>w. v = Some w \<and> err = None")
    case True
    then obtain w where "v = Some w" "err = None" by blast
    with r h' have "Pipe (c # cs) rn h = Pipe cs w h" by simp
    moreover from Cons.prems have "\<forall>f\<in>set cs. \<forall>n k. snd (f n k) = k" by simp
    from Cons.IH [OF this] have "snd (Pipe cs w h) = h" .
    ultimately show ?thesis by simp
  next
    case False
    with r h' have "Pipe (c # cs) rn h = ((v, err), h)"
      by (cases v; cases err) simp_all
    then show ?thesis by simp
  qed
qed

text \<open>
  C6, as amended.  \<open>FilterMatcher.Filter\<close> gates on its sub-pipeline.  When the sub-pipeline
  run on \<open>rn\<close> yields a non-nil node and no error, the matcher returns the pointer \<open>rn\<close> it was
  given, not the node \<open>v\<close> the pipeline produced; when the sub-pipeline yields nil and no
  error the result is nil with no error; an error of the sub-pipeline is returned to the
  caller with a nil node.  The matcher writes nothing itself: the heap it leaves is the heap
  the sub-pipeline leaves, so the node behind \<open>rn\<close> holds what the filters of the sub-pipeline
  wrote to it.  When no filter of the sub-pipeline writes to the heap, the matcher leaves
  the heap, and with it the node behind \<open>rn\<close>, as it was.
\<close>

theorem FilterMatcher_Filter_gate:
  "(Pipe (YFilters_Filters (fm_Filters t)) rn h = ((Some v, None), h') \<longrightarrow>
      FilterMatcher_Filter t rn h = ((Some rn, None), h'))
 \<and> (Pipe (YFilters_Filters (fm_Filters t)) rn h = ((None, None), h') \<longrightarrow>
      FilterMatcher_Filter t rn h = ((None, None), h'))
 \<and> (Pipe (YFilters_Filters (fm_Filters t)) rn h = ((v', Some err), h') \<longrightarrow>
      FilterMatcher_Filter t rn h = ((None, Some err), h'))
 \<and> snd (FilterMatcher_Filter t rn h) = snd (Pipe (YFilters_Filters (fm_Filters t)) rn h)
 \<and> ((\<forall>f\<in>set (YFilters_Filters (fm_Filters t)). \<forall>n k. snd (f n k) = k) \<longrightarrow>
      snd (FilterMatcher_Filter t rn h) = h)"
proof (intro conjI impI)
  assume "Pipe (YFilters_Filters (fm_Filters t)) rn h = ((Some v, None), h')"
  then show "FilterMatcher_Filter t rn h = ((Some rn, None), h')"
    by (simp add: FilterMatcher_Filter_def)
next
  assume "Pipe (YFilters_Filters (fm_Filters t)) rn h = ((None, None), h')"
  then show "FilterMatcher_Filter t rn h = ((None, None), h')"
    by (simp add: FilterMatcher_Filter_def)
next
  assume "Pipe (YFilters_Filters (fm_Filters t)) rn h = ((v', Some err), h')"
  then show "FilterMatcher_Filter t rn h = ((None, Some err), h')"
    by (simp add: FilterMatcher_Filter_def)
next
  show s: "snd (FilterMatcher_Filter t rn h) = snd (Pipe (YFilters_Filters (fm_Filters t)) rn h)"
    by (simp add: FilterMatcher_Filter_def split: prod.splits)
  assume "\<forall>f\<in>set (YFilters_Filters (fm_Filters t)). \<forall>n k. snd (f n k) = k"
  from Pipe_read_only [OF this] s show "snd (FilterMatcher_Filter t rn h) = h" by simp
qed

text \<open>
  C6 as stated has the input node returned unchanged.  The pointer is the one given, the
  node behind it is not always: a sub-pipeline that is a \<open>PrefixSetter\<close> of \<open>x\<close>, run on a
  scalar \<open>ab\<close>, yields a non-nil node and no error, and the matcher returns the input
  holding \<open>xab\<close>.
\<close>

theorem FilterMatcher_Filter_writes_counterexample:
  "Pipe (YFilters_Filters [YFilter (Some (PrefixSetter_Filter (PrefixSetter [] ''x'')))])
      (0::nat) [(0::nat) \<mapsto> Node ScalarNode ''!!str'' ''ab'' []]
    = ((Some 0, None), [(0::nat) \<mapsto> Node ScalarNode ''!!str'' ''xab'' []])
  \<and> FilterMatcher_Filter
      (FilterMatcher ''FilterMatcher'' [YFilter (Some (PrefixSetter_Filter (PrefixSetter [] ''x'')))])
      (0::nat) [(0::nat) \<mapsto> Node ScalarNode ''!!str'' ''ab'' []]
    = ((Some 0, None), [(0::nat) \<mapsto> Node ScalarNode ''!!str'' ''xab'' []])
  \<and> [(0::nat) \<mapsto> Node ScalarNode ''!!str'' ''xab'' []] 0 \<noteq>
    [(0::nat) \<mapsto> Node ScalarNode ''!!str'' ''ab'' []] 0"
  by (simp add: FilterMatcher_Filter_def YFilters_Filters_def PrefixSetter_Filter_def
      strings_HasPrefix_def set_Value_def)

theorem FilterMatcher_Filter_gate_witness:
  "FilterMatcher_Filter
      (FilterMatcher ''FilterMatcher'' [YFilter (Some (PrefixSetter_Filter (PrefixSetter [] ''x'')))])
      (0::nat) [(0::nat) \<mapsto> Node ScalarNode ''!!str'' ''ab'' []]
    = ((Some 0, None), [(0::nat) \<mapsto> Node ScalarNode ''!!str'' ''xab'' []])
  \<and> FilterMatcher_Filter
      (FilterMatcher ''FilterMatcher'' [YFilter (Some (\<lambda>rn h. ((None, None), h)))])
      (0::nat) [(0::nat) \<mapsto> Node ScalarNode ''!!str'' ''ab'' []]
    = ((None, None), [(0::nat) \<mapsto> Node ScalarNode ''!!str'' ''ab'' []])
  \<and> FilterMatcher_Filter
      (FilterMatcher ''FilterMatcher'' [YFilter None])
      (0::nat) [(0::nat) \<mapsto> Node ScalarNode ''!!str'' ''ab'' []]
    = ((None, Some (Panic ''nil pointer dereference'')), [(0::nat) \<mapsto> Node ScalarNode ''!!str'' ''ab'' []])
  \<and> snd (FilterMatcher_Filter
      (FilterMatcher ''FilterMatcher''
         [YFilter (Some (\<lambda>rn h. ((Some (Suc rn), None), h))), YFilter (Some (\<lambda>rn h. ((Some rn, None), h)))])
      (0::nat) [(0::nat) \<mapsto> Node ScalarNode ''!!str'' ''ab'' []])
    = [(0::nat) \<mapsto> Node ScalarNode ''!!str'' ''ab'' []]
  \<and> fst (FilterMatcher_Filter
      (FilterMatcher ''FilterMatcher''
         [YFilter (Some (\<lambda>rn h. ((Some (Suc rn), None), h))), YFilter (Some (\<lambda>rn h. ((Some rn, None), h)))])
      (0::nat) [(0::nat) \<mapsto> Node ScalarNode ''!!str'' ''ab'' []])
    = (Some 0, None)"
proof -
  let ?h = "[(0::nat) \<mapsto> Node ScalarNode ''!!str'' ''ab'' []]"
  let ?h' = "[(0::nat) \<mapsto> Node ScalarNode ''!!str'' ''xab'' []]"
  let ?t = "FilterMatcher ''FilterMatcher''
         [YFilter (Some (\<lambda>rn (h::nat \<Rightarrow> Node option). ((Some (Suc rn), None::error option), h))),
          YFilter (Some (\<lambda>rn h. ((Some rn, None), h)))]"
  have 1: "FilterMatcher_Filter
      (FilterMatcher ''FilterMatcher'' [YFilter (Some (PrefixSetter_Filter (PrefixSetter [] ''x'')))])
      (0::nat) ?h = ((Some 0, None), ?h')"
    using FilterMatcher_Filter_gate
      [of "FilterMatcher ''FilterMatcher'' [YFilter (Some (PrefixSetter_Filter (PrefixSetter [] ''x'')))]"
        "0::nat" ?h 0 ?h']
    by (simp add: YFilters_Filters_def PrefixSetter_Filter_def strings_HasPrefix_def set_Value_def)
  have 2: "FilterMatcher_Filter
      (FilterMatcher ''FilterMatcher'' [YFilter (Some (\<lambda>rn h. ((None, None), h)))])
      (0::nat) ?h = ((None, None), ?h)"
    using FilterMatcher_Filter_gate
      [of "FilterMatcher ''FilterMatcher'' [YFilter (Some (\<lambda>rn h. ((None, None), h)))]"
        "0::nat" ?h _ ?h]
    by (simp add: YFilters_Filters_def)
  have 3: "FilterMatcher_Filter (FilterMatcher ''FilterMatcher'' [YFilter None]) (0::nat) ?h
      = ((None, Some (Panic ''nil pointer dereference'')), ?h)"
    using FilterMatcher_Filter_gate
      [of "FilterMatcher ''FilterMatcher'' [YFilter None]" "0::nat" ?h _ ?h None
        "Panic ''nil pointer dereference''"]
    by (simp add: YFilters_Filters_def nil_Filter_def)
  have 4: "snd (FilterMatcher_Filter ?t (0::nat) ?h) = ?h"
    using FilterMatcher_Filter_gate [of ?t "0::nat" ?h]
    by (simp add: YFilters_Filters_def)
  have 5: "fst (FilterMatcher_Filter ?t (0::nat) ?h) = (Some 0, None)"
    using FilterMatcher_Filter_gate [of ?t "0::nat" ?h "Suc 0" ?h]
    by (simp add: YFilters_Filters_def)
  show ?thesis by (intro conjI) (rule 1, rule 2, rule 3, rule 4, rule 5)
qed

lemma sort_Filters:
  "sort (map fst Filters) =
     [''AnnotationClearer'', ''AnnotationGetter'', ''AnnotationSetter'', ''ElementAppender'',
      ''ElementMatcher'', ''FieldClearer'', ''FieldMatcher'', ''FieldSetter'', ''FilterMatcher'',
      ''Parser'', ''PathGetter'', ''PathMatcher'', ''PrefixSetter'', ''SuffixSetter'',
      ''TeePiper'', ''ValueReplacer'']"
  by (simp add: Filters_def)

text \<open>
  C7.  Let the declaration be readable, with \<open>kind\<close> as \<open>meta_Kind meta\<close>.  When that kind is
  not a key of the registry, \<open>YFilter.UnmarshalYAML\<close> fails, leaves the receiver as it was, and
  its message lists the sixteen registered names in lexicographic order, separated by commas.
  When the kind is registered with constructor \<open>ctor\<close>, the receiver holds the instance
  \<open>ctor ()\<close> as the closure \<open>unmarshal\<close> populated it from the declaration, and the call
  returns the error of that closure (none when the fields could be read).
\<close>

theorem UnmarshalYAML_kind:
  assumes "unmarshal_meta zero_ResourceMeta = (None, meta)"
  shows "(meta_Kind meta \<notin> fst ` set Filters \<longrightarrow>
       UnmarshalYAML unmarshal_meta unmarshal_filter y =
         (Some (Errorf (''unsupported GrepFilter Kind '' @ meta_Kind meta @
            '':  may be one of: [AnnotationClearer,AnnotationGetter,AnnotationSetter,ElementAppender,ElementMatcher,FieldClearer,FieldMatcher,FieldSetter,FilterMatcher,Parser,PathGetter,PathMatcher,PrefixSetter,SuffixSetter,TeePiper,ValueReplacer]'')), y))
   \<and> (\<forall>ctor. map_of Filters (meta_Kind meta) = Some ctor \<longrightarrow>
       UnmarshalYAML unmarshal_meta unmarshal_filter y =
         (fst (unmarshal_filter (ctor ())), YFilter (Some (snd (unmarshal_filter (ctor ()))))))"
proof (intro conjI impI allI)
  assume "meta_Kind meta \<notin> fst ` set Filters"
  then have "map_of Filters (meta_Kind meta) = None" by (simp add: map_of_eq_None_iff)
  then show "UnmarshalYAML unmarshal_meta unmarshal_filter y =
         (Some (Errorf (''unsupported GrepFilter Kind '' @ meta_Kind meta @
            '':  may be one of: [AnnotationClearer,AnnotationGetter,AnnotationSetter,ElementAppender,ElementMatcher,FieldClearer,FieldMatcher,FieldSetter,FilterMatcher,Parser,PathGetter,PathMatcher,PrefixSetter,SuffixSetter,TeePiper,ValueReplacer]'')), y)"
    using assms by (simp add: UnmarshalYAML_def unsupported_kind_def sort_Filters)
next
  fix ctor assume "map_of Filters (meta_Kind meta) = Some ctor"
  then show "UnmarshalYAML unmarshal_meta unmarshal_filter y =
         (fst (unmarshal_filter (ctor ())), YFilter (Some (snd (unmarshal_filter (ctor ())))))"
    using assms by (auto simp: UnmarshalYAML_def split: prod.splits option.splits)
qed

theorem UnmarshalYAML_kind_witness:
  "UnmarshalYAML (\<lambda>m. (None, m\<lparr>meta_Kind := ''GrepFilter''\<rparr>)) (\<lambda>f. (None, f)) (YFilter None) =
     (Some (Errorf ''unsupported GrepFilter Kind GrepFilter:  may be one of: [AnnotationClearer,AnnotationGetter,AnnotationSetter,ElementAppender,ElementMatcher,FieldClearer,FieldMatcher,FieldSetter,FilterMatcher,Parser,PathGetter,PathMatcher,PrefixSetter,SuffixSetter,TeePiper,ValueReplacer]''),
      YFilter None)
   \<and> UnmarshalYAML (\<lambda>m. (None, m\<lparr>meta_Kind := ''PrefixSetter''\<rparr>))
        (\<lambda>f. case f of F_PrefixSetter p \<Rightarrow> (None, F_PrefixSetter (PrefixSetter ''PrefixSetter'' ''dev-''))
                      | _ \<Rightarrow> (None, f))
        (YFilter None) =
     (None, YFilter (Some (F_PrefixSetter (PrefixSetter ''PrefixSetter'' ''dev-''))))"
proof -
  have 1: "UnmarshalYAML (\<lambda>m. (None, m\<lparr>meta_Kind := ''GrepFilter''\<rparr>)) (\<lambda>f. (None, f)) (YFilter None) =
     (Some (Errorf ''unsupported GrepFilter Kind GrepFilter:  may be one of: [AnnotationClearer,AnnotationGetter,AnnotationSetter,ElementAppender,ElementMatcher,FieldClearer,FieldMatcher,FieldSetter,FilterMatcher,Parser,PathGetter,PathMatcher,PrefixSetter,SuffixSetter,TeePiper,ValueReplacer]''),
      YFilter None)"
    using UnmarshalYAML_kind
      [of "\<lambda>m. (None, m\<lparr>meta_Kind := ''GrepFilter''\<rparr>)"
        "zero_ResourceMeta\<lparr>meta_Kind := ''GrepFilter''\<rparr>" "\<lambda>f. (None, f)" "YFilter None"]
    by (simp add: Filters_def)
  have 2: "UnmarshalYAML (\<lambda>m. (None, m\<lparr>meta_Kind := ''PrefixSetter''\<rparr>))
        (\<lambda>f. case f of F_PrefixSetter p \<Rightarrow> (None, F_PrefixSetter (PrefixSetter ''PrefixSetter'' ''dev-''))
                      | _ \<Rightarrow> (None, f))
        (YFilter None) =
     (None, YFilter (Some (F_PrefixSetter (PrefixSetter ''PrefixSetter'' ''dev-''))))"
    using UnmarshalYAML_kind
      [of "\<lambda>m. (None, m\<lparr>meta_Kind := ''PrefixSetter''\<rparr>)"
        "zero_ResourceMeta\<lparr>meta_Kind := ''PrefixSetter''\<rparr>"
        "\<lambda>f. case f of F_PrefixSetter p \<Rightarrow> (None, F_PrefixSetter (PrefixSetter ''PrefixSetter'' ''dev-''))
                      | _ \<Rightarrow> (None, f)"
        "YFilter None"]
    by (simp add: Filters_def)
  from 1 2 show ?thesis by simp
qed

text \<open>
  C8.  \<open>ValueReplacer.Filter\<close> returns the missing-match error exactly when \<open>StringMatch\<close> and
  \<open>RegexMatch\<close> are both empty, and then the heap is untouched.  With a non-empty
  \<open>StringMatch\<close> and \<open>Count = 0\<close>, every instance of the literal in the value is replaced:
  the new value is the old one split at the literal and joined with \<open>Replace\<close>.  On the regex
  path (empty \<open>StringMatch\<close>, a \<open>RegexMatch\<close> that compiles) the new value is what
  \<open>ReplaceAllString\<close> of the compiled pattern returns, whatever \<open>Count\<close> is.
\<close>

theorem ValueReplacer_Filter_match:
  fixes re :: "'r regexp"
  shows
  "(snd (fst (ValueReplacer_Filter re s object h)) =
       Some (Errorf ''ValueReplacer missing StringMatch and RegexMatch'')) =
     (StringMatch s = [] \<and> RegexMatch s = [])
 \<and> (StringMatch s = [] \<and> RegexMatch s = [] \<longrightarrow>
       fst (fst (ValueReplacer_Filter re s object h)) = None \<and>
       snd (ValueReplacer_Filter re s object h) = h)
 \<and> (StringMatch s \<noteq> [] \<and> Count s = 0 \<and> h object = Some n \<longrightarrow>
       ValueReplacer_Filter re s object h =
         ((Some object, None),
          h(object \<mapsto>
            set_Value n (strings_Join (strings_Split (Value n) (StringMatch s)) (Replace s)))))
 \<and> (StringMatch s = [] \<and> RegexMatch s \<noteq> [] \<and> Compile re (RegexMatch s) = Inr r \<and>
     h object = Some n \<longrightarrow>
       ValueReplacer_Filter re s object h =
         ((Some object, None),
          h(object \<mapsto> set_Value n (ReplaceAllString re r (Value n) (Replace s)))))"
proof (intro conjI impI)
  show "(snd (fst (ValueReplacer_Filter re s object h)) =
       Some (Errorf ''ValueReplacer missing StringMatch and RegexMatch'')) =
     (StringMatch s = [] \<and> RegexMatch s = [])"
    by (auto simp: ValueReplacer_Filter_def nil_deref_def Let_def split: option.splits sum.splits)
next
  assume "StringMatch s = [] \<and> RegexMatch s = []"
  then show "fst (fst (ValueReplacer_Filter re s object h)) = None"
    and "snd (ValueReplacer_Filter re s object h) = h"
    by (simp_all add: ValueReplacer_Filter_def)
next
  assume "StringMatch s \<noteq> [] \<and> Count s = 0 \<and> h object = Some n"
  then show "ValueReplacer_Filter re s object h =
         ((Some object, None),
          h(object \<mapsto>
            set_Value n (strings_Join (strings_Split (Value n) (StringMatch s)) (Replace s))))"
    by (simp add: ValueReplacer_Filter_def strings_Replace_all)
next
  assume "StringMatch s = [] \<and> RegexMatch s \<noteq> [] \<and> Compile re (RegexMatch s) = Inr r \<and>
     h object = Some n"
  then show "ValueReplacer_Filter re s object h =
         ((Some object, None),
          h(object \<mapsto> set_Value n (ReplaceAllString re r (Value n) (Replace s))))"
    by (simp add: ValueReplacer_Filter_def)
qed

theorem ValueReplacer_Filter_match_witness:
  "ValueReplacer_Filter literal_regexp (ValueReplacer [] [] [] ''bar'' 0) 0
       [0 \<mapsto> Node ScalarNode ''!!str'' ''foofoo'' []]
     = ((None, Some (Errorf ''ValueReplacer missing StringMatch and RegexMatch'')),
        [0 \<mapsto> Node ScalarNode ''!!str'' ''foofoo'' []])
   \<and> ValueReplacer_Filter literal_regexp (ValueReplacer [] ''foo'' [] ''bar'' 0) 0
       [0 \<mapsto> Node ScalarNode ''!!str'' ''foofoo'' []]
     = ((Some 0, None), [0 \<mapsto> Node ScalarNode ''!!str'' ''barbar'' []])
   \<and> ValueReplacer_Filter literal_regexp (ValueReplacer [] [] ''o'' ''0'' 1) 0
       [0 \<mapsto> Node ScalarNode ''!!str'' ''foofoo'' []]
     = ((Some 0, None), [0 \<mapsto> Node ScalarNode ''!!str'' ''f00f00'' []])"
proof -
  let ?h = "[(0::nat) \<mapsto> Node ScalarNode ''!!str'' ''foofoo'' []]"
  note a = ValueReplacer_Filter_match [of literal_regexp "ValueReplacer [] [] [] ''bar'' 0" 0 ?h]
  note b = ValueReplacer_Filter_match [of literal_regexp "ValueReplacer [] ''foo'' [] ''bar'' 0" 0 ?h
      "Node ScalarNode ''!!str'' ''foofoo'' []"]
  note c = ValueReplacer_Filter_match [of literal_regexp "ValueReplacer [] [] ''o'' ''0'' 1" 0 ?h
      "Node ScalarNode ''!!str'' ''foofoo'' []" "''o''"]
  have 1: "ValueReplacer_Filter literal_regexp (ValueReplacer [] [] [] ''bar'' 0) 0 ?h
     = ((None, Some (Errorf ''ValueReplacer missing StringMatch and RegexMatch'')), ?h)"
    using a by (simp add: prod_eq_iff)
  have 2: "ValueReplacer_Filter literal_regexp (ValueReplacer [] ''foo'' [] ''bar'' 0) 0 ?h
     = ((Some 0, None), [0 \<mapsto> Node ScalarNode ''!!str'' ''barbar'' []])"
    using b by (simp add: set_Value_def strings_Split.simps)
  have 3: "ValueReplacer_Filter literal_regexp (ValueReplacer [] [] ''o'' ''0'' 1) 0 ?h
     = ((Some 0, None), [0 \<mapsto> Node ScalarNode ''!!str'' ''f00f00'' []])"
    using c
    by (simp add: literal_regexp_def set_Value_def strings_Replace_def replace_instances.simps)
  from 1 2 3 show ?thesis by simp
qed

text \<open>
  C9.  \<open>PrefixSetter.Filter\<close> and \<open>SuffixSetter.Filter\<close> are idempotent: run a second time on
  the heap the first run leaves, each returns the same result and the same heap.  The reason is
  the guard: the value after one run is the old value when it already starts (ends) with the
  literal, and the literal prepended (appended) otherwise.
\<close>

theorem PrefixSetter_SuffixSetter_idempotent:
  "PrefixSetter_Filter s object (snd (PrefixSetter_Filter s object h)) =
     PrefixSetter_Filter s object h
 \<and> map_option Value (snd (PrefixSetter_Filter s object h) object) =
     map_option (\<lambda>v. if prefix (ps_Value s) v then v else ps_Value s @ v)
       (map_option Value (h object))
 \<and> SuffixSetter_Filter s' object (snd (SuffixSetter_Filter s' object h)) =
     SuffixSetter_Filter s' object h
 \<and> map_option Value (snd (SuffixSetter_Filter s' object h) object) =
     map_option (\<lambda>v. if suffix (ss_Value s') v then v else v @ ss_Value s')
       (map_option Value (h object))"
  by (auto simp: PrefixSetter_Filter_def SuffixSetter_Filter_def strings_HasPrefix_def
      strings_HasSuffix_def set_Value_def suffix_def split: option.splits)

section \<open>Properties of the node helpers\<close>

lemma lookup_set_field_same:
  "set_field name v cs = Some cs' \<Longrightarrow> lookup_field name cs' = Some v"
  by (induction name v cs arbitrary: cs' rule: set_field.induct)
    (auto simp: NewScalarRNode_def split: if_splits)

lemma lookup_set_field_other:
  "set_field name v cs = Some cs' \<Longrightarrow> name' \<noteq> name \<Longrightarrow>
   lookup_field name' cs' = lookup_field name' cs"
  by (induction name v cs arbitrary: cs' rule: set_field.induct)
    (auto simp: NewScalarRNode_def split: if_splits)

lemma with_field_Kind:
  "with_field name f m = Inr m' \<Longrightarrow> Kind m = MappingNode \<and> Kind m' = MappingNode"
  by (auto simp: with_field_def split: if_splits sum.splits option.splits)

lemma with_field_same:
  "with_field name f m = Inr m' \<Longrightarrow>
   \<exists>c'. f (case lookup_field name (Content m) of None \<Rightarrow> empty_mapping | Some c \<Rightarrow> c) = Inr c' \<and>
        lookup_field name (Content m') = Some c'"
  by (auto simp: with_field_def lookup_set_field_same split: if_splits sum.splits option.splits)

lemma with_field_other:
  "with_field name f m = Inr m' \<Longrightarrow> name' \<noteq> name \<Longrightarrow>
   lookup_field name' (Content m') = lookup_field name' (Content m)"
  by (auto simp: with_field_def lookup_set_field_other split: if_splits sum.splits option.splits)

lemma Field_mapping: "Kind m = MappingNode \<Longrightarrow> Field m name = lookup_field name (Content m)"
  by (simp add: Field_def YNode_def)

lemma YNode_mapping: "Kind m = MappingNode \<Longrightarrow> YNode m = m"
  by (simp add: YNode_def)

lemma on_YNode_Field:
  assumes "on_YNode (with_field name f) rn = Inr rn'"
  shows "\<exists>c c'. with_field name f c = Inr c' \<and> YNode rn = c \<and> YNode rn' = c'"
proof (cases "Kind rn = DocumentNode")
  case True
  with assms show ?thesis
    by (auto simp: on_YNode_def YNode_def split: list.splits sum.splits)
next
  case False
  with assms have w: "with_field name f rn = Inr rn'" by (simp add: on_YNode_def)
  from with_field_Kind [OF w] have "YNode rn = rn" "YNode rn' = rn'"
    by (simp_all add: YNode_mapping)
  with w show ?thesis by simp
qed

lemma GetAnnotation_SetAnnotation_same:
  assumes "SetAnnotation key v rn = Inr rn'"
  shows "GetAnnotation key rn' = Some v"
proof -
  let ?g = "with_field key (\<lambda>_. Inr (NewScalarRNode v))"
  from assms obtain c c' where c: "with_field ''metadata'' (with_field ''annotations'' ?g) c = Inr c'"
    "YNode rn' = c'"
    unfolding SetAnnotation_def by (blast dest: on_YNode_Field)
  from with_field_Kind [OF c(1)] have k: "Kind c' = MappingNode" by simp
  from with_field_same [OF c(1)] obtain m' m0 where
    m: "with_field ''annotations'' ?g m0 = Inr m'" "lookup_field ''metadata'' (Content c') = Some m'"
    by blast
  from with_field_Kind [OF m(1)] have km: "Kind m' = MappingNode" by simp
  from with_field_same [OF m(1)] obtain a' a0 where
    a: "?g a0 = Inr a'" "lookup_field ''annotations'' (Content m') = Some a'"
    by blast
  from with_field_Kind [OF a(1)] have ka: "Kind a' = MappingNode" by simp
  from with_field_same [OF a(1)] have "lookup_field key (Content a') = Some (NewScalarRNode v)"
    by auto
  with c(2) k m(2) km a(2) ka show ?thesis
    by (simp add: GetAnnotation_def Field_def YNode_mapping NewScalarRNode_def)
qed

lemma Field_empty_mapping: "Field empty_mapping name = None"
  by (simp add: Field_def YNode_def empty_mapping_def)

lemma GetAnnotation_SetAnnotation_other:
  assumes "SetAnnotation key v rn = Inr rn'" and "key' \<noteq> key"
  shows "GetAnnotation key' rn' = GetAnnotation key' rn"
proof -
  let ?g = "with_field key (\<lambda>_. Inr (NewScalarRNode v))"
  from assms(1) obtain c c' where c: "with_field ''metadata'' (with_field ''annotations'' ?g) c = Inr c'"
    "YNode rn' = c'" "YNode rn = c"
    unfolding SetAnnotation_def by (blast dest: on_YNode_Field)
  from with_field_Kind [OF c(1)] have k: "Kind c' = MappingNode" "Kind c = MappingNode" by simp_all
  define m0 where "m0 = (case lookup_field ''metadata'' (Content c) of None \<Rightarrow> empty_mapping | Some x \<Rightarrow> x)"
  from with_field_same [OF c(1)] obtain m' where
    m: "with_field ''annotations'' ?g m0 = Inr m'" "lookup_field ''metadata'' (Content c') = Some m'"
    unfolding m0_def by blast
  from with_field_Kind [OF m(1)] have km: "Kind m' = MappingNode" "Kind m0 = MappingNode" by simp_all
  define a0 where "a0 = (case lookup_field ''annotations'' (Content m0) of None \<Rightarrow> empty_mapping | Some x \<Rightarrow> x)"
  from with_field_same [OF m(1)] obtain a' where
    a: "?g a0 = Inr a'" "lookup_field ''annotations'' (Content m') = Some a'"
    unfolding a0_def by blast
  from with_field_Kind [OF a(1)] have ka: "Kind a' = MappingNode" "Kind a0 = MappingNode" by simp_all
  from with_field_other [OF a(1) assms(2)]
  have eq: "lookup_field key' (Content a') = lookup_field key' (Content a0)" .
  have new: "GetAnnotation key' rn' = map_option Value (lookup_field key' (Content a0))"
    using c(2) k m(2) km a(2) ka eq by (simp add: GetAnnotation_def Field_def YNode_mapping)
  have old: "GetAnnotation key' rn = map_option Value (lookup_field key' (Content a0))"
  proof (cases "lookup_field ''metadata'' (Content c)")
    case None
    then have "m0 = empty_mapping" by (simp add: m0_def)
    then have "a0 = empty_mapping" by (simp add: a0_def empty_mapping_def)
    with None c(3) k show ?thesis
      by (simp add: GetAnnotation_def Field_def empty_mapping_def)
  next
    case (Some x)
    then have x: "m0 = x" by (simp add: m0_def)
    show ?thesis
    proof (cases "lookup_field ''annotations'' (Content m0)")
      case None
      then have "a0 = empty_mapping" by (simp add: a0_def)
      with None Some x c(3) k km show ?thesis
        by (simp add: GetAnnotation_def Field_def YNode_mapping empty_mapping_def)
    next
      case (Some y)
      then have "a0 = y" by (simp add: a0_def)
      with Some \<open>lookup_field ''metadata'' (Content c) = Some x\<close> x c(3) k km ka show ?thesis
        by (simp add: GetAnnotation_def Field_def YNode_mapping)
    qed
  qed
  from new old show ?thesis by simp
qed

lemma Field_SetAnnotation_other:
  assumes "SetAnnotation key v rn = Inr rn'" and "name \<noteq> ''metadata''"
  shows "Field rn' name = Field rn name"
proof -
  let ?g = "with_field key (\<lambda>_. Inr (NewScalarRNode v))"
  from assms(1) obtain c c' where c: "with_field ''metadata'' (with_field ''annotations'' ?g) c = Inr c'"
    "YNode rn' = c'" "YNode rn = c"
    unfolding SetAnnotation_def by (blast dest: on_YNode_Field)
  from with_field_Kind [OF c(1)] have k: "Kind c' = MappingNode" "Kind c = MappingNode" by simp_all
  from with_field_other [OF c(1) assms(2)] c(2,3) k show ?thesis
    by (simp add: Field_def)
qed


section \<open>Properties of the byte reader\<close>

lemma set_annotations_keeps:
  assumes "set_annotations keys m n = Inr n'" and "key \<notin> set keys"
  shows "GetAnnotation key n' = GetAnnotation key n"
  using assms
proof (induction keys arbitrary: n)
  case Nil
  then show ?case by simp
next
  case (Cons k keys)
  from Cons.prems obtain n1 where n1: "SetAnnotation k (map_get m k) n = Inr n1"
    "set_annotations keys m n1 = Inr n'"
    by (auto split: sum.splits)
  from Cons.prems(2) have "key \<noteq> k" "key \<notin> set keys" by auto
  with Cons.IH [OF n1(2)] GetAnnotation_SetAnnotation_other [OF n1(1)] show ?case by simp
qed

lemma set_annotations_sets:
  assumes "set_annotations keys m n = Inr n'" and "key \<in> set keys"
  shows "GetAnnotation key n' = Some (map_get m key)"
  using assms
proof (induction keys arbitrary: n)
  case Nil
  then show ?case by simp
next
  case (Cons k keys)
  from Cons.prems obtain n1 where n1: "SetAnnotation k (map_get m k) n = Inr n1"
    "set_annotations keys m n1 = Inr n'"
    by (auto split: sum.splits)
  show ?case
  proof (cases "key \<in> set keys")
    case True
    with Cons.IH [OF n1(2)] show ?thesis by simp
  next
    case False
    with Cons.prems(2) have "key = k" by simp
    with set_annotations_keeps [OF n1(2) False] GetAnnotation_SetAnnotation_same [OF n1(1)]
    show ?thesis by simp
  qed
qed

lemma decode_Omit:
  "decode D index v r st = (res, r1, st1) \<Longrightarrow>
   OmitReaderAnnotations r1 = OmitReaderAnnotations r"
  by (auto simp: decode_def Let_def split: sum.splits bool.splits prod.splits option.splits)

lemma decode_stamps:
  assumes "decode D index v r st = (Inr (Some n), r1, st1)" and "\<not> OmitReaderAnnotations r"
  shows "GetAnnotation IndexAnnotation n = Some (Sprintf_d index)"
proof -
  obtain a st0 where a: "make_map (SetAnnotations r) st = (a, st0)"
    by (cases "make_map (SetAnnotations r) st")
  let ?st2 = "map_set st0 a IndexAnnotation (Sprintf_d index)"
  let ?m = "cells ?st2 a"
  from assms a obtain node where
    s: "set_annotations (sort (map fst ?m)) ?m node = Inr n"
    by (auto simp: decode_def Let_def NewRNode_def split: sum.splits bool.splits)
  have "IndexAnnotation \<in> set (sort (map fst ?m))"
    by (simp add: map_set_def dom_update)
  moreover have "map_get ?m IndexAnnotation = Sprintf_d index"
    by (simp add: map_set_def map_get_def update_conv')
  ultimately show ?thesis using set_annotations_sets [OF s] by simp
qed


lemma Read_values_indexes:
  assumes "Read_values D vs index acc r st = (Inr out, r', st')"
    and "\<not> OmitReaderAnnotations r"
  shows "\<exists>k. map (GetAnnotation IndexAnnotation) (directs out) =
           map (GetAnnotation IndexAnnotation) (directs acc) @
           map (\<lambda>i. Some (Sprintf_d i)) [index ..< index + k]"
  using assms
proof (induction vs arbitrary: index acc r st)
  case Nil
  then have "out = acc" by simp
  then show ?case by (intro exI [of _ 0]) simp
next
  case (Cons v vs)
  obtain res r1 st1 where d: "decode D index v r st = (res, r1, st1)"
    by (cases "decode D index v r st")
  from decode_Omit [OF d] Cons.prems(2) have o1: "\<not> OmitReaderAnnotations r1" by simp
  show ?case
  proof (cases res)
    case (Inl err)
    with Cons.prems(1) d have "Read_values D vs index acc r1 st1 = (Inr out, r', st')"
      by (simp split: if_splits)
    from Cons.IH [OF this o1] show ?thesis .
  next
    case (Inr node)
    show ?thesis
    proof (cases "IsMissingOrNull node")
      case True
      with Cons.prems(1) d Inr have "Read_values D vs index acc r1 st1 = (Inr out, r', st')"
        by simp
      from Cons.IH [OF this o1] show ?thesis .
    next
      case False
      then obtain n where n: "node = Some n" by (cases node) (simp_all add: IsMissingOrNull_def)
      let ?env = "(meta_Kind (GetMeta n) = ResourceListKind \<or> meta_Kind (GetMeta n) = ''List'') \<and>
                     Field n ''items'' \<noteq> None"
      show ?thesis
      proof (cases ?env)
        case True
        then obtain items where items: "Field n ''items'' = Some items" by auto
        let ?r3 = "case Field n ''functionConfig'' of
                     None \<Rightarrow> r1\<lparr>WrappingKind := meta_Kind (GetMeta n),
                                  WrappingApiVersion := meta_ApiVersion (GetMeta n)\<rparr>
                   | Some fc \<Rightarrow> r1\<lparr>WrappingKind := meta_Kind (GetMeta n),
                                  WrappingApiVersion := meta_ApiVersion (GetMeta n),
                                  FunctionConfig := Some fc\<rparr>"
        let ?out = "acc @ map (\<lambda>i. (Unwrapped, NewRNode i)) (Content (YNode items))"
        from Cons.prems(1) d Inr False n True items
        have step: "Read_values D vs index ?out ?r3 st1 = (Inr out, r', st')"
          by (simp add: Let_def split: option.splits)
        have o3: "\<not> OmitReaderAnnotations ?r3" using o1 by (simp split: option.splits)
        from Cons.IH [OF step o3] show ?thesis
          by (simp add: directs_def o_def)
      next
        case env: False
        from Cons.prems(1) d Inr False n env
        have step: "Read_values D vs (index + 1) (acc @ [(Direct, n)]) r1 st1 = (Inr out, r', st')"
          by (auto simp add: Let_def)
        from Cons.IH [OF step o1] obtain k where
          k: "map (GetAnnotation IndexAnnotation) (directs out) =
           map (GetAnnotation IndexAnnotation) (directs (acc @ [(Direct, n)])) @
           map (\<lambda>i. Some (Sprintf_d i)) [index + 1 ..< index + 1 + k]" by blast
        from d Inr n have "decode D index v r st = (Inr (Some n), r1, st1)" by simp
        from decode_stamps [OF this Cons.prems(2)]
        have "GetAnnotation IndexAnnotation n = Some (Sprintf_d index)" .
        with k have "map (GetAnnotation IndexAnnotation) (directs out) =
           map (GetAnnotation IndexAnnotation) (directs acc) @
           map (\<lambda>i. Some (Sprintf_d i)) (index # [index + 1 ..< index + 1 + k])"
          by (simp add: directs_def)
        moreover have "index # [index + 1 ..< index + 1 + k] = [index ..< index + (k + 1)]"
          by (subst (2) upt_rec) simp
        ultimately have "map (GetAnnotation IndexAnnotation) (directs out) =
           map (GetAnnotation IndexAnnotation) (directs acc) @
           map (\<lambda>i. Some (Sprintf_d i)) [index ..< index + (k + 1)]"
          by (simp only:)
        then show ?thesis by blast
      qed
    qed
  qed
qed

lemma Read_values_Cons:
  "Read_values D (v # vs) index acc r st =
     (case Read_step D index v r st of
        (Inl err, r1, st1) \<Rightarrow> (Inl err, r1, st1)
      | (Inr (index', xs), r1, st1) \<Rightarrow> Read_values D vs index' (acc @ xs) r1 st1)"
  by (simp add: Read_step_def Let_def split: prod.splits sum.splits option.splits)


declare Read_values.simps(2) [simp del]

lemma prepend_prepend: "prepend acc (prepend xs res) = prepend (acc @ xs) res"
  by (auto simp: prepend_def split: prod.splits sum.splits)

lemma Read_values_prepend:
  "Read_values D vs index acc r st = prepend acc (Read_values D vs index [] r st)"
proof (induction vs arbitrary: index acc r st)
  case Nil
  show ?case by (simp add: prepend_def)
next
  case (Cons v vs)
  show ?case
  proof (cases "Read_step D index v r st")
    case (fields res r1 st1)
    show ?thesis
    proof (cases res)
      case (Inl err)
      with fields show ?thesis by (simp add: Read_values_Cons prepend_def)
    next
      case (Inr p)
      obtain index' xs where p: "p = (index', xs)" by (cases p)
      have "Read_values D (v # vs) index acc r st = Read_values D vs index' (acc @ xs) r1 st1"
        using fields Inr p by (simp add: Read_values_Cons)
      also have "\<dots> = prepend (acc @ xs) (Read_values D vs index' [] r1 st1)"
        by (rule Cons.IH)
      also have "\<dots> = prepend acc (prepend xs (Read_values D vs index' [] r1 st1))"
        by (simp add: prepend_prepend)
      also have "prepend xs (Read_values D vs index' [] r1 st1) =
          Read_values D vs index' xs r1 st1"
        by (rule Cons.IH [symmetric])
      also have "Read_values D vs index' xs r1 st1 = Read_values D (v # vs) index [] r st"
        using fields Inr p by (simp add: Read_values_Cons)
      finally show ?thesis .
    qed
  qed
qed

lemma decode_skipped:
  "skipped D v \<Longrightarrow> decode D index v r st = (Inl EOF, r, st) \<or> decode D index v r st = (Inr None, r, st)"
  by (auto simp: skipped_def decode_def split: sum.splits)

lemma Read_step_skipped:
  "skipped D v \<Longrightarrow> Read_step D index v r st = (Inr (index, []), r, st)"
  using decode_skipped [of D v index r st]
  by (auto simp: Read_step_def IsMissingOrNull_def)

lemma Read_values_skipped:
  "skipped D v \<Longrightarrow> Read_values D (v # vs) index acc r st = Read_values D vs index acc r st"
  by (simp add: Read_values_Cons Read_step_skipped)

lemma Read_values_filter_skipped:
  "Read_values D (filter (\<lambda>v. \<not> skipped D v) vs) index acc r st = Read_values D vs index acc r st"
proof (induction vs arbitrary: index acc r st)
  case Nil
  show ?case by simp
next
  case (Cons v vs)
  show ?case
  proof (cases "skipped D v")
    case True
    then show ?thesis by (simp add: Read_values_skipped Cons.IH)
  next
    case False
    then show ?thesis
      by (simp add: Read_values_Cons Cons.IH split: prod.splits sum.splits)
  qed
qed

lemma Read_values_all_skipped:
  "\<forall>v\<in>set vs. skipped D v \<Longrightarrow> Read_values D vs index acc r st = (Inr acc, r, st)"
  by (induction vs) (simp_all add: Read_values_skipped)

lemma Read_values_append_skipped:
  assumes "\<forall>v\<in>set pre \<union> set post. skipped D v"
  shows "Read_values D (pre @ vs @ post) index acc r st = Read_values D vs index acc r st"
proof -
  from assms have "filter (\<lambda>v. \<not> skipped D v) (pre @ vs @ post) = filter (\<lambda>v. \<not> skipped D v) vs"
    by (auto simp: filter_empty_conv)
  then show ?thesis
    using Read_values_filter_skipped [of D "pre @ vs @ post" index acc r st]
      Read_values_filter_skipped [of D vs index acc r st] by simp
qed

lemma strings_Index_take:
  "sep \<noteq> [] \<Longrightarrow> strings_Index s sep = Some m \<Longrightarrow> strings_Index (take m s) sep = None"
proof (induction s arbitrary: m)
  case Nil
  then show ?case by simp
next
  case (Cons c cs)
  show ?case
  proof (cases "prefix sep (c # cs)")
    case True
    with Cons.prems show ?thesis by simp
  next
    case False
    with Cons.prems obtain j where j: "strings_Index cs sep = Some j" "m = Suc j" by auto
    have "prefix (c # take j cs) (c # cs)" by (simp add: take_is_prefix)
    with False have "\<not> prefix sep (c # take j cs)"
      using prefix_order.trans by blast
    with Cons.IH [OF Cons.prems(1) j(1)] j(2) show ?thesis by simp
  qed
qed

lemma strings_Split_no_separator:
  "sep \<noteq> [] \<Longrightarrow> seg \<in> set (strings_Split s sep) \<Longrightarrow> strings_Index seg sep = None"
proof (induction s sep rule: strings_Split.induct)
  case (1 s sep)
  show ?case
  proof (cases "strings_Index s sep")
    case None
    with "1.prems" show ?thesis by (subst (asm) strings_Split.simps) simp
  next
    case (Some m)
    with "1.prems" have "seg = take m s \<or> seg \<in> set (strings_Split (drop (m + length sep) s) sep)"
      by (subst (asm) strings_Split.simps) simp
    then show ?thesis
    proof
      assume "seg = take m s"
      with strings_Index_take [OF "1.prems"(1) Some] show ?thesis by simp
    next
      assume "seg \<in> set (strings_Split (drop (m + length sep) s) sep)"
      with "1.IH" [OF "1.prems"(1) Some "1.prems"(1)] show ?thesis by simp
    qed
  qed
qed

lemma decode_not_stamps:
  "\<not> stamps D v \<Longrightarrow> snd (decode D index v r st) = (r, st)"
  by (auto simp: stamps_def decode_def split: sum.splits bool.splits)

lemma decode_stamps_store:
  assumes "stamps D v"
  shows "snd (decode D index v r st) =
     (r\<lparr>SetAnnotations := Some (fst (make_map (SetAnnotations r) st))\<rparr>,
      if \<not> OmitReaderAnnotations r
      then map_set (snd (make_map (SetAnnotations r) st)) (fst (make_map (SetAnnotations r) st))
             IndexAnnotation (Sprintf_d index)
      else snd (make_map (SetAnnotations r) st))"
  using assms
  by (auto simp: stamps_def decode_def Let_def split: sum.splits bool.splits prod.splits)

lemma index_entry_map_set:
  "index_entry (r\<lparr>SetAnnotations := Some a\<rparr>) (map_set st a IndexAnnotation v) = Some v"
  by (simp add: index_entry_def map_set_def update_conv')

lemma only_index_written_refl: "only_index_written a st st"
  by (simp add: only_index_written_def)

lemma only_index_written_trans:
  "only_index_written a st st1 \<Longrightarrow> only_index_written a st1 st2 \<Longrightarrow> only_index_written a st st2"
  by (simp add: only_index_written_def)

lemma only_index_written_map_set:
  "only_index_written a st (map_set st a IndexAnnotation v)"
  by (simp add: only_index_written_def map_set_def update_conv')

text \<open>One call of decode on a reader that holds a map.\<close>

lemma decode_Some_map:
  assumes "SetAnnotations r = Some a" and "decode D index v r st = (res, r1, st1)"
  shows "SetAnnotations r1 = Some a \<and> only_index_written a st st1"
proof (cases "stamps D v")
  case True
  from decode_stamps_store [OF True, of index r st] assms
  show ?thesis
    by (auto simp: make_map_def only_index_written_map_set only_index_written_refl)
next
  case False
  from decode_not_stamps [OF False, of index r st] assms
  show ?thesis by (simp add: only_index_written_refl)
qed

lemma Read_step_SetAnnotations:
  assumes "Read_step D index v r st = (res, r1, st1)"
  shows "\<exists>res' r0. decode D index v r st = (res', r0, st1) \<and>
           SetAnnotations r1 = SetAnnotations r0 \<and>
           OmitReaderAnnotations r1 = OmitReaderAnnotations r0"
  using assms
  by (auto simp: Read_step_def Let_def split: prod.splits sum.splits if_splits option.splits)

lemma Read_values_Some_map:
  assumes "SetAnnotations r = Some a" and "Read_values D vs index acc r st = (res, r', st')"
  shows "SetAnnotations r' = Some a \<and> only_index_written a st st'"
  using assms
proof (induction vs arbitrary: index acc r st)
  case Nil
  then show ?case by (simp add: only_index_written_refl)
next
  case (Cons v vs)
  obtain sres r1 st1 where s: "Read_step D index v r st = (sres, r1, st1)"
    by (cases "Read_step D index v r st")
  from Read_step_SetAnnotations [OF s] obtain res' r0 where
    d: "decode D index v r st = (res', r0, st1)" "SetAnnotations r1 = SetAnnotations r0"
    by blast
  from decode_Some_map [OF Cons.prems(1) d(1)] d(2)
  have 1: "SetAnnotations r1 = Some a" "only_index_written a st st1" by simp_all
  show ?case
  proof (cases sres)
    case (Inl err)
    with Cons.prems(2) s 1 show ?thesis by (simp add: Read_values_Cons)
  next
    case (Inr p)
    obtain index' xs where p: "p = (index', xs)" by (cases p)
    with Cons.prems(2) s Inr have "Read_values D vs index' (acc @ xs) r1 st1 = (res, r', st')"
      by (simp add: Read_values_Cons)
    from Cons.IH [OF 1(1) this] 1(2) show ?thesis
      by (blast intro: only_index_written_trans)
  qed
qed

text \<open>Once the index entry is there, it stays (with some index as its value).\<close>

lemma decode_keeps_entry:
  assumes "\<not> OmitReaderAnnotations r" and "index_entry r st = Some (Sprintf_d j0)"
    and "decode D index v r st = (res, r1, st1)"
  shows "\<exists>j. index_entry r1 st1 = Some (Sprintf_d j)"
proof -
  from assms(2) obtain a where a: "SetAnnotations r = Some a"
    by (auto simp: index_entry_def split: option.splits)
  show ?thesis
  proof (cases "stamps D v")
    case True
    from decode_stamps_store [OF True, of index r st] assms(1,3) a
    have "r1 = r\<lparr>SetAnnotations := Some a\<rparr>" "st1 = map_set st a IndexAnnotation (Sprintf_d index)"
      by (simp_all add: make_map_def)
    then show ?thesis by (auto simp: index_entry_map_set)
  next
    case False
    from decode_not_stamps [OF False, of index r st] assms(3) have "r1 = r" "st1 = st" by simp_all
    with assms(2) show ?thesis by blast
  qed
qed

lemma index_entry_cong:
  "SetAnnotations r1 = SetAnnotations r0 \<Longrightarrow> index_entry r1 st = index_entry r0 st"
  by (simp add: index_entry_def)

lemma Read_values_keeps_entry:
  assumes "\<not> OmitReaderAnnotations r" and "index_entry r st = Some (Sprintf_d j0)"
    and "Read_values D vs index acc r st = (res, r', st')"
  shows "\<exists>j. index_entry r' st' = Some (Sprintf_d j)"
  using assms
proof (induction vs arbitrary: index acc r st j0)
  case Nil
  then show ?case by auto
next
  case (Cons v vs)
  obtain sres r1 st1 where s: "Read_step D index v r st = (sres, r1, st1)"
    by (cases "Read_step D index v r st")
  from Read_step_SetAnnotations [OF s] obtain res' r0 where
    d: "decode D index v r st = (res', r0, st1)" "SetAnnotations r1 = SetAnnotations r0"
       "OmitReaderAnnotations r1 = OmitReaderAnnotations r0"
    by blast
  from decode_keeps_entry [OF Cons.prems(1,2) d(1)] index_entry_cong [OF d(2)]
  obtain j1 where j1: "index_entry r1 st1 = Some (Sprintf_d j1)" by auto
  from decode_Omit [OF d(1)] d(3) Cons.prems(1) have o: "\<not> OmitReaderAnnotations r1" by simp
  show ?case
  proof (cases sres)
    case (Inl err)
    with Cons.prems(3) s j1 show ?thesis by (auto simp: Read_values_Cons)
  next
    case (Inr p)
    obtain index' xs where p: "p = (index', xs)" by (cases p)
    with Cons.prems(3) s Inr have "Read_values D vs index' (acc @ xs) r1 st1 = (res, r', st')"
      by (simp add: Read_values_Cons)
    from Cons.IH [OF o j1 this] show ?thesis .
  qed
qed

text \<open>A successful read that met a stamping segment leaves the entry.\<close>

lemma Read_step_not_stamps:
  assumes "\<not> stamps D v" and "Read_step D index v r st = (Inr p, r1, st1)"
  shows "p = (index, []) \<and> r1 = r \<and> st1 = st"
proof -
  from decode_not_stamps [OF assms(1), of index r st]
  obtain res where d: "decode D index v r st = (res, r, st)"
    by (cases "decode D index v r st") simp
  have "\<not> (\<exists>n. res = Inr (Some n))"
    using assms(1) d by (auto simp: stamps_def decode_def Let_def split: sum.splits bool.splits prod.splits)
  with assms(2) d show ?thesis
    by (auto simp: Read_step_def split: sum.splits if_splits option.splits)
qed

lemma Read_values_stamps_entry:
  assumes "\<not> OmitReaderAnnotations r" and "\<exists>v\<in>set vs. stamps D v"
    and "Read_values D vs index acc r st = (Inr out, r', st')"
  shows "SetAnnotations r' = Some (fst (make_map (SetAnnotations r) st)) \<and>
         (\<exists>j. index_entry r' st' = Some (Sprintf_d j))"
  using assms
proof (induction vs arbitrary: index acc r st)
  case Nil
  then show ?case by simp
next
  case (Cons v vs)
  obtain sres r1 st1 where s: "Read_step D index v r st = (sres, r1, st1)"
    by (cases "Read_step D index v r st")
  from Cons.prems(3) s obtain index' xs where
    p: "sres = Inr (index', xs)" and
    rest: "Read_values D vs index' (acc @ xs) r1 st1 = (Inr out, r', st')"
    by (cases sres) (auto simp: Read_values_Cons)
  show ?case
  proof (cases "stamps D v")
    case True
    from Read_step_SetAnnotations [OF s] obtain res' r0 where
      d: "decode D index v r st = (res', r0, st1)" "SetAnnotations r1 = SetAnnotations r0"
         "OmitReaderAnnotations r1 = OmitReaderAnnotations r0"
      by blast
    let ?a = "fst (make_map (SetAnnotations r) st)"
    from decode_stamps_store [OF True, of index r st] d(1) Cons.prems(1)
    have r0: "r0 = r\<lparr>SetAnnotations := Some ?a\<rparr>"
      and st1: "st1 = map_set (snd (make_map (SetAnnotations r) st)) ?a IndexAnnotation (Sprintf_d index)"
      by simp_all
    from r0 d(2) have a1: "SetAnnotations r1 = Some ?a" by simp
    from r0 st1 have "index_entry r0 st1 = Some (Sprintf_d index)"
      by (simp add: index_entry_map_set)
    with index_entry_cong [OF d(2)] have e1: "index_entry r1 st1 = Some (Sprintf_d index)" by simp
    from r0 d(3) Cons.prems(1) have o1: "\<not> OmitReaderAnnotations r1" by simp
    from Read_values_Some_map [OF a1 rest] Read_values_keeps_entry [OF o1 e1 rest]
    show ?thesis by simp
  next
    case False
    from Read_step_not_stamps [OF False] s p have "index' = index" "xs = []" "r1 = r" "st1 = st"
      by auto
    with rest have rest': "Read_values D vs index acc r st = (Inr out, r', st')" by simp
    from False Cons.prems(2) have "\<exists>v\<in>set vs. stamps D v" by auto
    from Cons.IH [OF Cons.prems(1) this rest'] show ?thesis .
  qed
qed

text \<open>
  The first segment that holds a document is reached when the segments before it are
  skipped; from then on the reader holds the map with an index entry, whatever the read returns.
\<close>

lemma Read_values_first_stamp:
  assumes o: "\<not> OmitReaderAnnotations r"
    and pre: "\<forall>u\<in>set pre. skipped D u"
    and v: "stamps D v"
    and res: "Read_values D (pre @ v # post) index acc r st = (res, r', st')"
  shows "SetAnnotations r' = Some (fst (make_map (SetAnnotations r) st)) \<and>
         (\<exists>j. index_entry r' st' = Some (Sprintf_d j))"
proof -
  from pre have "\<forall>u\<in>set pre \<union> set []. skipped D u" by simp
  from Read_values_append_skipped [OF this, of "v # post" index acc r st] res
  have res': "Read_values D (v # post) index acc r st = (res, r', st')" by simp
  obtain sres r1 st1 where s: "Read_step D index v r st = (sres, r1, st1)"
    by (cases "Read_step D index v r st")
  from Read_step_SetAnnotations [OF s] obtain res0 r0 where
    d: "decode D index v r st = (res0, r0, st1)" "SetAnnotations r1 = SetAnnotations r0"
       "OmitReaderAnnotations r1 = OmitReaderAnnotations r0"
    by blast
  let ?a = "fst (make_map (SetAnnotations r) st)"
  from decode_stamps_store [OF v, of index r st] d(1) o
  have r0: "r0 = r\<lparr>SetAnnotations := Some ?a\<rparr>"
    and st1: "st1 = map_set (snd (make_map (SetAnnotations r) st)) ?a IndexAnnotation (Sprintf_d index)"
    by simp_all
  from r0 d(2) have a1: "SetAnnotations r1 = Some ?a" by simp
  from r0 st1 have "index_entry r0 st1 = Some (Sprintf_d index)"
    by (simp add: index_entry_map_set)
  with index_entry_cong [OF d(2)] have e1: "index_entry r1 st1 = Some (Sprintf_d index)" by simp
  from r0 d(3) o have o1: "\<not> OmitReaderAnnotations r1" by simp
  show ?thesis
  proof (cases sres)
    case (Inl err)
    with res' s have "r' = r1" "st' = st1" by (simp_all add: Read_values_Cons)
    with a1 e1 show ?thesis by blast
  next
    case (Inr p)
    obtain index' xs where p: "p = (index', xs)" by (cases p)
    with res' s Inr have rest: "Read_values D post index' (acc @ xs) r1 st1 = (res, r', st')"
      by (simp add: Read_values_Cons)
    from Read_values_Some_map [OF a1 rest] Read_values_keeps_entry [OF o1 e1 rest]
    show ?thesis by simp
  qed
qed

text \<open>Setting annotations keeps the kind of a node and the tag of its root.\<close>

lemma with_field_Tag: "with_field name f m = Inr m' \<Longrightarrow> Tag m' = Tag m"
  by (auto simp: with_field_def split: if_splits sum.splits option.splits)

lemma SetAnnotation_Kind_Tag:
  assumes "SetAnnotation key v rn = Inr rn'"
  shows "Kind rn' = Kind rn \<and> Tag (YNode rn') = Tag (YNode rn)"
proof (cases "Kind rn = DocumentNode")
  case True
  with assms show ?thesis
    by (auto simp: SetAnnotation_def on_YNode_def YNode_def with_field_Tag
        split: list.splits sum.splits)
next
  case False
  let ?f = "with_field ''metadata'' (with_field ''annotations''
       (with_field key (\<lambda>_. Inr (NewScalarRNode v))))"
  from False assms have w: "?f rn = Inr rn'" by (simp add: SetAnnotation_def on_YNode_def)
  from with_field_Kind [OF w] with_field_Tag [OF w] show ?thesis
    by (simp add: YNode_mapping)
qed

lemma set_annotations_Kind_Tag:
  "set_annotations keys m n = Inr n' \<Longrightarrow> Kind n' = Kind n \<and> Tag (YNode n') = Tag (YNode n)"
proof (induction keys arbitrary: n)
  case Nil
  then show ?case by simp
next
  case (Cons k keys)
  from Cons.prems obtain n1 where n1: "SetAnnotation k (map_get m k) n = Inr n1"
    "set_annotations keys m n1 = Inr n'"
    by (auto split: sum.splits)
  from Cons.IH [OF n1(2)] SetAnnotation_Kind_Tag [OF n1(1)] show ?case by simp
qed

lemma decode_document_not_null:
  assumes "decode D index v r st = (Inr (Some n), r1, st1)" and "Kind n = DocumentNode"
  shows "\<not> IsMissingOrNull (Some n)"
proof -
  from assms(1) obtain node keys m where
    d: "D v = Inr node" "isEmptyDocument node = Inr False" "set_annotations keys m node = Inr n"
    by (auto simp: decode_def Let_def NewRNode_def split: sum.splits bool.splits prod.splits)
  from set_annotations_Kind_Tag [OF d(3)] assms(2)
  have k: "Kind node = DocumentNode" and t: "Tag (YNode n) = Tag (YNode node)" by simp_all
  from d(2) k have "Tag (YNode node) \<noteq> NullNodeTag"
    by (auto simp: isEmptyDocument_def YNode_def split: list.splits)
  with t show ?thesis by (simp add: IsMissingOrNull_def)
qed

lemma Read_step_index:
  "Read_step D index v r st = (Inr (index', xs), r1, st1) \<Longrightarrow> index' = index + length (directs xs)"
  by (auto simp: Read_step_def Let_def directs_def
      split: prod.splits sum.splits if_splits option.splits)

lemma Read_step_Omit:
  "Read_step D index v r st = (res, r1, st1) \<Longrightarrow> OmitReaderAnnotations r1 = OmitReaderAnnotations r"
  using Read_step_SetAnnotations [of D index v r st res r1 st1] decode_Omit [of D index v r st]
  by auto

lemma directs_append: "directs (xs @ ys) = directs xs @ directs ys"
  by (simp add: directs_def)

text \<open>The loop over a list of segments in two parts.\<close>

lemma Read_values_append:
  "Read_values D (xs @ ys) index acc r st =
     (case Read_values D xs index acc r st of
        (Inl err, r1, st1) \<Rightarrow> (Inl err, r1, st1)
      | (Inr out, r1, st1) \<Rightarrow>
          Read_values D ys (index + length (directs out) - length (directs acc)) out r1 st1)"
proof (induction xs arbitrary: index acc r st)
  case Nil
  show ?case by simp
next
  case (Cons v xs)
  show ?case
  proof (cases "Read_step D index v r st")
    case (fields res r1 st1)
    show ?thesis
    proof (cases res)
      case (Inl err)
      with fields show ?thesis by (simp add: Read_values_Cons)
    next
      case (Inr p)
      obtain index' zs where p: "p = (index', zs)" by (cases p)
      from Read_step_index fields Inr p have i: "index' = index + length (directs zs)" by blast
      have 1: "Read_values D ((v # xs) @ ys) index acc r st =
          Read_values D (xs @ ys) index' (acc @ zs) r1 st1"
        using fields Inr p by (simp add: Read_values_Cons)
      have 2: "Read_values D (v # xs) index acc r st = Read_values D xs index' (acc @ zs) r1 st1"
        using fields Inr p by (simp add: Read_values_Cons)
      show ?thesis
      proof (cases "Read_values D xs index' (acc @ zs) r1 st1")
        case (fields res2 r2 st2)
        show ?thesis
        proof (cases res2)
          case (Inl err)
          with fields 1 2 Cons.IH [of index' "acc @ zs" r1 st1] show ?thesis by simp
        next
          case (Inr out)
          from Read_values_prepend [of D xs index' "acc @ zs" r1 st1] fields Inr
          obtain out' where "out = (acc @ zs) @ out'"
            by (auto simp: prepend_def split: prod.splits sum.splits)
          then have "index' + length (directs out) - length (directs (acc @ zs)) =
              index + length (directs out) - length (directs acc)"
            using i by (simp add: directs_append)
          with fields Inr 1 2 Cons.IH [of index' "acc @ zs" r1 st1] show ?thesis by simp
        qed
      qed
    qed
  qed
qed

lemma Read_values_Omit:
  "Read_values D vs index acc r st = (res, r', st') \<Longrightarrow>
     OmitReaderAnnotations r' = OmitReaderAnnotations r"
proof (induction vs arbitrary: index acc r st)
  case Nil
  then show ?case by simp
next
  case (Cons v vs)
  obtain sres r1 st1 where s: "Read_step D index v r st = (sres, r1, st1)"
    by (cases "Read_step D index v r st")
  from Read_step_Omit [OF s] have o: "OmitReaderAnnotations r1 = OmitReaderAnnotations r" .
  show ?case
  proof (cases sres)
    case (Inl err)
    with Cons.prems s o show ?thesis by (auto simp: Read_values_Cons)
  next
    case (Inr p)
    obtain index' xs where p: "p = (index', xs)" by (cases p)
    with Cons.prems s Inr have "Read_values D vs index' (acc @ xs) r1 st1 = (res, r', st')"
      by (simp add: Read_values_Cons)
    from Cons.IH [OF this] o show ?thesis by simp
  qed
qed

text \<open>
  The last segment that holds a document writes the entry that the read leaves: the count of
  the documents appended before it.
\<close>

lemma Read_values_last_stamp:
  assumes o: "\<not> OmitReaderAnnotations r"
    and pre: "Read_values D pre 0 [] r st = (Inr out1, r1, st1)"
    and u: "stamps D u"
    and post: "\<forall>w\<in>set post. skipped D w"
    and res: "Read_values D (pre @ u # post) 0 [] r st = (res, r', st')"
  shows "index_entry r' st' = Some (Sprintf_d (length (directs out1)))"
proof -
  let ?i = "length (directs out1)"
  from Read_values_append [of D pre "u # post" 0 "[]" r st] pre res
  have "Read_values D (u # post) ?i out1 r1 st1 = (res, r', st')" by (simp add: directs_def)
  moreover from post have "\<forall>w\<in>set [] \<union> set post. skipped D w" by simp
  from Read_values_append_skipped [OF this, of "[u]" ?i out1 r1 st1]
  have "Read_values D (u # post) ?i out1 r1 st1 = Read_values D [u] ?i out1 r1 st1" by simp
  ultimately have res': "Read_values D [u] ?i out1 r1 st1 = (res, r', st')" by simp
  obtain sres r2 st2 where s: "Read_step D ?i u r1 st1 = (sres, r2, st2)"
    by (cases "Read_step D ?i u r1 st1")
  from res' s have e: "r' = r2" "st' = st2"
    by (auto simp: Read_values_Cons split: sum.splits prod.splits)
  from Read_step_SetAnnotations [OF s] obtain res0 r0 where
    d: "decode D ?i u r1 st1 = (res0, r0, st2)" "SetAnnotations r2 = SetAnnotations r0"
    by blast
  from Read_values_Omit [OF pre] o have o1: "\<not> OmitReaderAnnotations r1" by simp
  let ?a = "fst (make_map (SetAnnotations r1) st1)"
  from decode_stamps_store [OF u, of ?i r1 st1] d(1) o1
  have r0: "r0 = r1\<lparr>SetAnnotations := Some ?a\<rparr>"
    and st2: "st2 = map_set (snd (make_map (SetAnnotations r1) st1)) ?a IndexAnnotation (Sprintf_d ?i)"
    by simp_all
  from r0 st2 have "index_entry r0 st2 = Some (Sprintf_d ?i)"
    by (simp add: index_entry_map_set)
  with index_entry_cong [OF d(2)] e show ?thesis by simp
qed

text \<open>A read that meets no segment holding a document leaves reader and store as they were.\<close>

lemma Read_step_not_stamps_snd:
  assumes "\<not> stamps D v"
  shows "snd (Read_step D index v r st) = (r, st)"
proof (cases "Read_step D index v r st")
  case (fields res r1 st1)
  show ?thesis
  proof (cases res)
    case (Inl err)
    from decode_not_stamps [OF assms, of index r st] fields Inl show ?thesis
      by (auto simp: Read_step_def Let_def split: prod.splits sum.splits if_splits option.splits)
  next
    case (Inr p)
    with Read_step_not_stamps [OF assms] fields show ?thesis by auto
  qed
qed

lemma Read_values_not_stamps:
  assumes "\<forall>w\<in>set vs. \<not> stamps D w"
  shows "snd (Read_values D vs index acc r st) = (r, st)"
  using assms
proof (induction vs arbitrary: index acc)
  case Nil
  show ?case by simp
next
  case (Cons v vs)
  from Cons.prems have v: "\<not> stamps D v" by simp
  obtain sres r1 st1 where s: "Read_step D index v r st = (sres, r1, st1)"
    by (cases "Read_step D index v r st")
  with Read_step_not_stamps_snd [OF v, of index r st] have e: "r1 = r" "st1 = st" by simp_all
  show ?case
  proof (cases sres)
    case (Inl err)
    with s e show ?thesis by (simp add: Read_values_Cons)
  next
    case (Inr p)
    obtain index' xs where p: "p = (index', xs)" by (cases p)
    from Cons.prems have "\<forall>w\<in>set vs. \<not> stamps D w" by simp
    from Cons.IH [OF this, of index' "acc @ xs"] s e Inr p show ?thesis
      by (simp add: Read_values_Cons)
  qed
qed

lemma ByteReader_Read_not_stamps:
  assumes "Reader r = Inr input" and "\<forall>w\<in>set (strings_Split input separator). \<not> stamps D w"
  shows "snd (ByteReader_Read D r st) = (r, st)"
proof -
  from Read_values_not_stamps [OF assms(2), of 0 "[]" r st] assms(1) show ?thesis
    by (cases "Read_values D (strings_Split input separator) 0 [] r st")
       (auto simp: ByteReader_Read_def ByteReader_Read_tagged_def split: sum.splits)
qed

section \<open>Properties of the package reader and read-writer\<close>

lemma getFiles_loop_set:
  "getFiles_loop E nodes val = Inr val' \<Longrightarrow>
   set val' = set val \<union> set (path_annotations E nodes) \<and> (distinct val \<longrightarrow> distinct val')"
proof (induction nodes arbitrary: val)
  case Nil
  then show ?case by (simp add: path_annotations_def)
next
  case (Cons n nodes)
  from Cons.prems obtain path index where
    g: "kioutil_GetFileAnnotations E n = Inr (path, index)"
    and rest: "getFiles_loop E nodes (List.insert path val) = Inr val'"
    by (auto split: sum.splits)
  from Cons.IH [OF rest] g show ?case
    by (auto simp: path_annotations_def)
qed

lemma getFiles_set:
  "getFiles E nodes = Inr val \<Longrightarrow> set val = set (path_annotations E nodes) \<and> distinct val"
  using getFiles_loop_set [of E nodes "[]" val] by (simp add: getFiles_def)



lemma initReaderAnnotations_maps:
  assumes "\<not> pr_OmitReaderAnnotations r"
  shows "initReaderAnnotations E r path st =
     (r\<lparr>pr_SetAnnotations := Some (fst (make_map (pr_SetAnnotations r) st))\<rparr>,
      map_set (map_set (snd (make_map (pr_SetAnnotations r) st))
                 (fst (make_map (pr_SetAnnotations r) st)) PackageAnnotation (filepath_Dir E path))
        (fst (make_map (pr_SetAnnotations r) st)) PathAnnotation path)"
  using assms by (simp add: initReaderAnnotations_def Let_def split: prod.splits)

lemma keys_distinct:
  "PathAnnotation \<noteq> PackageAnnotation" "PathAnnotation \<noteq> IndexAnnotation"
  "PackageAnnotation \<noteq> IndexAnnotation"
  by (simp_all add: PathAnnotation_def PackageAnnotation_def IndexAnnotation_def)

lemma map_set_entries:
  "map_of (cells (map_set (map_set st a PackageAnnotation d) a PathAnnotation p) a) PathAnnotation = Some p"
  "map_of (cells (map_set (map_set st a PackageAnnotation d) a PathAnnotation p) a) PackageAnnotation = Some d"
  using keys_distinct by (simp_all add: map_set_def update_conv')

lemma ByteReader_Read_Some_map:
  assumes "SetAnnotations r = Some a" and "ByteReader_Read D r st = (res, r', st')"
  shows "SetAnnotations r' = Some a \<and> only_index_written a st st'"
proof (cases "Reader r")
  case (Inl err)
  with assms show ?thesis
    by (auto simp: ByteReader_Read_def ByteReader_Read_tagged_def only_index_written_refl)
next
  case (Inr input)
  obtain tres where t: "Read_values D (strings_Split input separator) 0 [] r st = (tres, r', st')"
    using assms(2) Inr
    by (auto simp: ByteReader_Read_def ByteReader_Read_tagged_def split: prod.splits sum.splits)
  from Read_values_Some_map [OF assms(1) t] show ?thesis .
qed

lemma readFile_store:
  assumes "pr_SetAnnotations r = Some a" and "readFile E fs r p st = (res, st')"
  shows "only_index_written a st st'"
proof (cases "os_Open E fs p")
  case (Inl err)
  with assms(2) show ?thesis by (simp add: readFile_def only_index_written_refl)
next
  case (Inr f)
  let ?rr = "\<lparr>Reader = f, OmitReaderAnnotations = pr_OmitReaderAnnotations r,
               SetAnnotations = pr_SetAnnotations r, FunctionConfig = None,
               WrappingApiVersion = [], WrappingKind = []\<rparr>"
  obtain rr' where b: "ByteReader_Read (yaml_Decode E) ?rr st = (res, rr', st')"
    using assms(2) Inr by (auto simp: readFile_def Let_def split: prod.splits)
  have "SetAnnotations ?rr = Some a" using assms(1) by simp
  from ByteReader_Read_Some_map [OF this b] show ?thesis by simp
qed

lemma readFile_index_entry:
  assumes "pr_SetAnnotations r = Some a" and "\<not> pr_OmitReaderAnnotations r"
    and "os_Open E fs p = Inr (Inr input)"
    and "\<exists>v\<in>set (strings_Split input separator). stamps (yaml_Decode E) v"
    and "readFile E fs r p st = (Inr nodes, st')"
  shows "\<exists>j. map_of (cells st' a) IndexAnnotation = Some (Sprintf_d j)"
proof -
  let ?rr = "\<lparr>Reader = Inr input, OmitReaderAnnotations = pr_OmitReaderAnnotations r,
               SetAnnotations = pr_SetAnnotations r, FunctionConfig = None,
               WrappingApiVersion = [], WrappingKind = []\<rparr>"
  from assms(3,5) obtain out rr' where
    t: "Read_values (yaml_Decode E) (strings_Split input separator) 0 [] ?rr st = (Inr out, rr', st')"
    by (auto simp: readFile_def Let_def ByteReader_Read_def ByteReader_Read_tagged_def
        split: prod.splits sum.splits)
  have o: "\<not> OmitReaderAnnotations ?rr" using assms(2) by simp
  from Read_values_stamps_entry [OF o assms(4) t] assms(1)
  show ?thesis by (auto simp: index_entry_def make_map_def)
qed

lemma Read_walkFn_file:
  assumes nd: "\<not> IsDir info"
    and m: "shouldSkipFile E (pr_MatchFilesGlob (ws_r s)) (Name info) = (True, None)"
    and rel: "filepath_Rel E (if path = pr_PackagePath (ws_r s)
                 then filepath_Dir E (pr_PackagePath (ws_r s)) else ws_pathRelativeTo s) path = Inr path'"
    and o: "\<not> pr_OmitReaderAnnotations (ws_r s)"
    and w: "Read_walkFn E fs path (Some info) None s = (e, s')"
  shows "pr_SetAnnotations (ws_r s') = Some (fst (make_map (pr_SetAnnotations (ws_r s)) (ws_store s)))
     \<and> map_of (cells (ws_store s') (fst (make_map (pr_SetAnnotations (ws_r s)) (ws_store s))))
          PathAnnotation = Some path'
     \<and> map_of (cells (ws_store s') (fst (make_map (pr_SetAnnotations (ws_r s)) (ws_store s))))
          PackageAnnotation = Some (filepath_Dir E path')"
proof -
  let ?a = "fst (make_map (pr_SetAnnotations (ws_r s)) (ws_store s))"
  let ?st0 = "snd (make_map (pr_SetAnnotations (ws_r s)) (ws_store s))"
  let ?rel = "if path = pr_PackagePath (ws_r s)
                 then filepath_Dir E (pr_PackagePath (ws_r s)) else ws_pathRelativeTo s"
  let ?r' = "(ws_r s)\<lparr>pr_SetAnnotations := Some ?a\<rparr>"
  let ?st1 = "map_set (map_set ?st0 ?a PackageAnnotation (filepath_Dir E path')) ?a PathAnnotation path'"
  have i: "initReaderAnnotations E (ws_r s) path' (ws_store s) = (?r', ?st1)"
    by (rule initReaderAnnotations_maps [OF o])
  obtain res st2 where rf: "readFile E fs ?r' (filepath_Join E ?rel path') ?st1 = (res, st2)"
    by (cases "readFile E fs ?r' (filepath_Join E ?rel path') ?st1")
  have s': "ws_r s' = ?r' \<and> ws_store s' = st2"
    using w nd m rel i rf
    by (auto simp: Read_walkFn_def Let_def split: if_splits sum.splits)
  have "pr_SetAnnotations ?r' = Some ?a" by simp
  from readFile_store [OF this rf] have f: "only_index_written ?a ?st1 st2" .
  have "map_of (cells st2 ?a) PathAnnotation = map_of (cells ?st1 ?a) PathAnnotation"
    "map_of (cells st2 ?a) PackageAnnotation = map_of (cells ?st1 ?a) PackageAnnotation"
    using f keys_distinct by (simp_all add: only_index_written_def)
  with s' show ?thesis by (simp add: map_set_entries)
qed

section \<open>The byte reader: the claims\<close>

text \<open>
  The definitions that evaluating a read on the scenario inputs unfolds.
\<close>

lemmas run_defs =
  ByteReader_Read_tagged_def ByteReader_Read_def example_ByteReader_def Read_values_Cons Read_step_def
  decode_def example_Decode_def chomp_def document_def isEmptyDocument_def NullNodeTag_def map_node_def
  str_node_def int_node_def seq_node_def alloc_def make_map_def empty_store_def map_set_def map_get_def Let_def
  Sprintf_d.simps digit_char_def SetAnnotation_def on_YNode_def with_field_def NewScalarRNode_def
  NewRNode_def IsMissingOrNull_def YNode_def GetMeta_def scalar_field_def Field_def
  ResourceListKind_def empty_mapping_def stamped_doc_def IndexAnnotation_def separator_def
  strings_Split.simps

text \<open>
  C1.  Let \<open>ByteReader.Read\<close> succeed with \<open>OmitReaderAnnotations\<close> false.  The documents it
  appended themselves (tag \<open>Direct\<close>; the items unwrapped from an envelope are not among
  them) carry, in read order, the index annotations \<open>0\<close>, \<open>1\<close>, \<open>2\<close>, ... in decimal: the
  \<open>i\<close>-th of them carries \<open>i\<close>.  Skipped segments and envelopes leave no gap.  The output of
  \<open>Read\<close> itself is the tagged output with the tags erased.
\<close>

theorem ByteReader_Read_index_annotations:
  assumes "\<not> OmitReaderAnnotations r"
    and "ByteReader_Read_tagged D r st = (Inr out, r', st')"
  shows "ByteReader_Read D r st = (Inr (map snd out), r', st') \<and>
    map (GetAnnotation IndexAnnotation) (directs out) =
      map (\<lambda>i. Some (Sprintf_d i)) [0 ..< length (directs out)]"
proof
  from assms(2) show "ByteReader_Read D r st = (Inr (map snd out), r', st')"
    by (simp add: ByteReader_Read_def)
next
  from assms(2) obtain input where
    t: "Read_values D (strings_Split input separator) 0 [] r st = (Inr out, r', st')"
    by (auto simp: ByteReader_Read_tagged_def split: sum.splits)
  from Read_values_indexes [OF t assms(1)] obtain k where
    k: "map (GetAnnotation IndexAnnotation) (directs out) = map (\<lambda>i. Some (Sprintf_d i)) [0 ..< k]"
    by (auto simp: directs_def)
  then have "length (map (GetAnnotation IndexAnnotation) (directs out)) =
      length (map (\<lambda>i. Some (Sprintf_d i)) [0 ..< k])" by (rule arg_cong)
  then have "k = length (directs out)" by simp
  with k show "map (GetAnnotation IndexAnnotation) (directs out) =
      map (\<lambda>i. Some (Sprintf_d i)) [0 ..< length (directs out)]" by simp
qed

lemma run_interleaved:
  "ByteReader_Read_tagged example_Decode (example_ByteReader interleaved_input) empty_store =
     (Inr [(Direct, stamped_doc ''a'' ''1'' ''0''),
           (Unwrapped, map_node [(''a'', int_node ''1'')]),
           (Unwrapped, map_node [(''b'', int_node ''2'')]),
           (Direct, stamped_doc ''b'' ''2'' ''1'')],
      (example_ByteReader interleaved_input)
        \<lparr>SetAnnotations := Some 0, WrappingApiVersion := ''kyaml.kustomize.dev/v1alpha1'',
         WrappingKind := ''ResourceList''\<rparr>,
      \<lparr>cells = (\<lambda>_. [])(0 := [(IndexAnnotation, ''1'')]), fresh = 1\<rparr>)"
  by (simp add: run_defs interleaved_input_def)

theorem ByteReader_Read_index_annotations_witness:
  "ByteReader_Read example_Decode (example_ByteReader interleaved_input) empty_store =
     (Inr [stamped_doc ''a'' ''1'' ''0'', map_node [(''a'', int_node ''1'')],
           map_node [(''b'', int_node ''2'')], stamped_doc ''b'' ''2'' ''1''],
      (example_ByteReader interleaved_input)
        \<lparr>SetAnnotations := Some 0, WrappingApiVersion := ''kyaml.kustomize.dev/v1alpha1'',
         WrappingKind := ''ResourceList''\<rparr>,
      \<lparr>cells = (\<lambda>_. [])(0 := [(IndexAnnotation, ''1'')]), fresh = 1\<rparr>)
   \<and> map (GetAnnotation IndexAnnotation) [stamped_doc ''a'' ''1'' ''0'', stamped_doc ''b'' ''2'' ''1'']
       = [Some ''0'', Some ''1'']"
proof -
  have o: "\<not> OmitReaderAnnotations (example_ByteReader interleaved_input)"
    by (simp add: example_ByteReader_def)
  have u: "[0..<2] = [0, Suc 0]" by (simp add: upt_rec)
  from ByteReader_Read_index_annotations [OF o run_interleaved]
  show ?thesis by (simp add: directs_def u Sprintf_d.simps digit_char_def)
qed

text \<open>
  C4.  \<open>ByteReader.Read\<close> splits the buffered input at the literal separator: joining the
  segments with the separator gives the input back, and no segment contains the separator.
  A segment whose decode signals end of input or yields an empty (null) document is
  \<open>skipped\<close>: the read gives the same result, reader and store as the read of the segments
  that are not skipped.  So skipped segments before and after the others add no document and
  no error, and a read of skipped segments only returns what it started from.
\<close>

theorem ByteReader_Read_splits_and_skips:
  "separator = ''\<newline>---\<newline>''
 \<and> strings_Join (strings_Split input separator) separator = input
 \<and> (\<forall>seg\<in>set (strings_Split input separator). strings_Index seg separator = None)
 \<and> (Reader r = Inr input \<longrightarrow>
       ByteReader_Read_tagged D r st =
         Read_values D (filter (\<lambda>v. \<not> skipped D v) (strings_Split input separator)) 0 [] r st)
 \<and> ((\<forall>v\<in>set pre \<union> set post. skipped D v) \<longrightarrow>
       Read_values D (pre @ vs @ post) index acc r st = Read_values D vs index acc r st)
 \<and> ((\<forall>v\<in>set vs. skipped D v) \<longrightarrow> Read_values D vs index acc r st = (Inr acc, r, st))"
proof -
  have s: "separator \<noteq> []" by (simp add: separator_def)
  show ?thesis
    using strings_Join_Split [OF s, of input] strings_Split_no_separator [OF s]
      Read_values_filter_skipped [of D "strings_Split input separator" 0 "[]" r st]
      Read_values_append_skipped [of pre post D vs index acc r st]
      Read_values_all_skipped [of vs D index acc r st]
    by (auto simp: ByteReader_Read_tagged_def separator_def)
qed

lemma split_padded: "strings_Split padded_input separator = ['''', ''a: 1'', ''~'', '''']"
  by (simp add: padded_input_def separator_def strings_Split.simps)

lemma skipped_examples:
  "skipped example_Decode ''''" "skipped example_Decode ''~''" "\<not> skipped example_Decode ''a: 1''"
  by (simp_all add: skipped_def example_Decode_def chomp_def isEmptyDocument_def document_def
      NullNodeTag_def map_node_def)

theorem ByteReader_Read_splits_and_skips_witness:
  "strings_Split padded_input separator = ['''', ''a: 1'', ''~'', '''']
 \<and> strings_Join ['''', ''a: 1'', ''~'', ''''] separator = padded_input
 \<and> ByteReader_Read_tagged example_Decode (example_ByteReader padded_input) empty_store =
      (Inr [(Direct, stamped_doc ''a'' ''1'' ''0'')],
       (example_ByteReader padded_input)\<lparr>SetAnnotations := Some 0\<rparr>,
       \<lparr>cells = (\<lambda>_. [])(0 := [(IndexAnnotation, ''0'')]), fresh = 1\<rparr>)
 \<and> Read_values example_Decode ['''', ''~'', ''''] 0 [] (example_ByteReader padded_input) empty_store =
      (Inr [], example_ByteReader padded_input, empty_store)"
proof -
  note w = ByteReader_Read_splits_and_skips
    [of padded_input "example_ByteReader padded_input" example_Decode empty_store
      "['''']" "['''']" "[''a: 1'', ''~'']" 0 "[]"]
  note w2 = ByteReader_Read_splits_and_skips
    [of padded_input "example_ByteReader padded_input" example_Decode empty_store
      "[]" "[]" "['''', ''~'', '''']" 0 "[]"]
  have r: "Reader (example_ByteReader padded_input) = Inr padded_input"
    by (simp add: example_ByteReader_def)
  have 1: "strings_Join ['''', ''a: 1'', ''~'', ''''] separator = padded_input"
    using w split_padded by simp
  have "ByteReader_Read_tagged example_Decode (example_ByteReader padded_input) empty_store =
      Read_values example_Decode [''a: 1''] 0 [] (example_ByteReader padded_input) empty_store"
    using w r split_padded skipped_examples by simp
  also have "\<dots> = (Inr [(Direct, stamped_doc ''a'' ''1'' ''0'')],
       (example_ByteReader padded_input)\<lparr>SetAnnotations := Some 0\<rparr>,
       \<lparr>cells = (\<lambda>_. [])(0 := [(IndexAnnotation, ''0'')]), fresh = 1\<rparr>)"
    by (simp add: run_defs)
  finally have 2: "ByteReader_Read_tagged example_Decode (example_ByteReader padded_input) empty_store =
      (Inr [(Direct, stamped_doc ''a'' ''1'' ''0'')],
       (example_ByteReader padded_input)\<lparr>SetAnnotations := Some 0\<rparr>,
       \<lparr>cells = (\<lambda>_. [])(0 := [(IndexAnnotation, ''0'')]), fresh = 1\<rparr>)" .
  have 3: "Read_values example_Decode ['''', ''~'', ''''] 0 [] (example_ByteReader padded_input) empty_store =
      (Inr [], example_ByteReader padded_input, empty_store)"
    using w2 skipped_examples by simp
  show ?thesis by (intro conjI) (rule split_padded, rule 1, rule 2, rule 3)
qed

text \<open>
  C5.  Let \<open>decode\<close> return for the segment \<open>v\<close> the document \<open>n\<close>, a document node whose
  kind is \<open>ResourceList\<close> or \<open>List\<close> and which has an \<open>items\<close> field.  Then the read of \<open>v\<close> and the
  segments after it returns the output so far, then each element of \<open>items\<close> in order as a
  document of its own (tag \<open>Unwrapped\<close>), then what the segments after \<open>v\<close> produce, read
  with the same \<open>index\<close> (the envelope consumes none) by a reader that has recorded the kind
  and apiVersion of \<open>n\<close> as \<open>WrappingKind\<close> and \<open>WrappingApiVersion\<close> and its
  \<open>functionConfig\<close> field, when it has one, as \<open>FunctionConfig\<close>.  The envelope \<open>n\<close> itself is
  not appended.
\<close>

theorem Read_values_envelope:
  assumes "decode D index v r st = (Inr (Some n), r1, st1)"
    and "Kind n = DocumentNode"
    and "meta_Kind (GetMeta n) = ResourceListKind \<or> meta_Kind (GetMeta n) = ''List''"
    and "Field n ''items'' = Some items"
  shows "Read_values D (v # vs) index acc r st =
      prepend (acc @ map (\<lambda>i. (Unwrapped, NewRNode i)) (Content (YNode items)))
        (Read_values D vs index []
           (r1\<lparr>WrappingKind := meta_Kind (GetMeta n),
               WrappingApiVersion := meta_ApiVersion (GetMeta n),
               FunctionConfig := (case Field n ''functionConfig'' of
                                    None \<Rightarrow> FunctionConfig r1
                                  | Some fc \<Rightarrow> Some fc)\<rparr>) st1)"
proof -
  let ?r3 = "r1\<lparr>WrappingKind := meta_Kind (GetMeta n),
               WrappingApiVersion := meta_ApiVersion (GetMeta n),
               FunctionConfig := (case Field n ''functionConfig'' of
                                    None \<Rightarrow> FunctionConfig r1
                                  | Some fc \<Rightarrow> Some fc)\<rparr>"
  let ?items = "map (\<lambda>i. (Unwrapped, NewRNode i)) (Content (YNode items))"
  have "Read_step D index v r st = (Inr (index, ?items), ?r3, st1)"
    using assms decode_document_not_null [OF assms(1,2)]
    by (auto simp: Read_step_def Let_def split: option.splits)
  then have "Read_values D (v # vs) index acc r st = Read_values D vs index (acc @ ?items) ?r3 st1"
    by (simp add: Read_values_Cons)
  also have "\<dots> = prepend (acc @ ?items) (Read_values D vs index [] ?r3 st1)"
    by (rule Read_values_prepend)
  finally show ?thesis .
qed

lemma decode_envelope:
  "decode example_Decode 0 envelope_input (example_ByteReader envelope_input) empty_store =
     (Inr (Some stamped_envelope),
      (example_ByteReader envelope_input)\<lparr>SetAnnotations := Some 0\<rparr>,
      \<lparr>cells = (\<lambda>_. [])(0 := [(IndexAnnotation, ''0'')]), fresh = 1\<rparr>)"
  by (simp add: run_defs envelope_input_def stamped_envelope_def)

lemma stamped_envelope_fields:
  "Kind stamped_envelope = DocumentNode"
  "meta_Kind (GetMeta stamped_envelope) = ResourceListKind"
  "meta_ApiVersion (GetMeta stamped_envelope) = ''kyaml.kustomize.dev/v1alpha1''"
  "Field stamped_envelope ''items'' =
     Some (seq_node [map_node [(''a'', int_node ''1'')], map_node [(''b'', int_node ''2'')]])"
  "Field stamped_envelope ''functionConfig'' = None"
  by (simp_all add: run_defs stamped_envelope_def)

theorem Read_values_envelope_witness:
  "Read_values example_Decode [envelope_input] 0 [] (example_ByteReader envelope_input) empty_store =
     (Inr [(Unwrapped, map_node [(''a'', int_node ''1'')]),
           (Unwrapped, map_node [(''b'', int_node ''2'')])],
      (example_ByteReader envelope_input)
        \<lparr>SetAnnotations := Some 0, WrappingApiVersion := ''kyaml.kustomize.dev/v1alpha1'',
         WrappingKind := ''ResourceList''\<rparr>,
      \<lparr>cells = (\<lambda>_. [])(0 := [(IndexAnnotation, ''0'')]), fresh = 1\<rparr>)"
  using Read_values_envelope
    [OF decode_envelope stamped_envelope_fields(1) disjI1 [OF stamped_envelope_fields(2)]
      stamped_envelope_fields(4), of "[]" "[]"]
  by (simp add: stamped_envelope_fields prepend_def ResourceListKind_def NewRNode_def YNode_def
      seq_node_def example_ByteReader_def)

section \<open>The package reader and read-writer: the claims\<close>

lemmas pkg_defs =
  LocalPackageReadWriter_Read_def LocalPackageReader_Read_def example_ReadWriter_def example_env_def
  example_fs_def filepath_Walk_def example_Walk_tree_def example_Base_def Read_walkFn_def
  shouldSkipDir_def defaultMatch_def example_Match_def example_Rel_def example_Dir_def
  example_Join_def initReaderAnnotations_def readFile_def getFiles_def example_GetFileAnnotations_def
  GetAnnotation_def PathAnnotation_def PackageAnnotation_def package_doc_def suffix_to_prefix
  IsNotExist_def example_Reader_def caller_store_def caller_ByteReader_def
  LocalPackageReadWriter_Write_def clear_annotations_def example_Writer_def example_Remove_def
  Difference_def path_annotations_def removed_def example_Clean_def clean_step_def
  list_input_def outside_item_def traversal_fs_def

text \<open>
  C10, as amended.  \<open>decode\<close> makes the map of the reader when the field is nil (a nil map
  is allocated at a fresh address, a map the caller supplied is taken as it is).  With
  \<open>OmitReaderAnnotations\<close> false, a call of \<open>decode\<close> on a segment that holds a document (not
  empty) writes the index key into that map in place, and the reader holds the map
  afterwards; a call on any other segment leaves reader and store as they are.  A whole
  \<open>Read\<close> through a caller-supplied map \<open>a\<close> allocates nothing and changes nothing in the
  store but the index entry of \<open>a\<close>.  When the segments up to the first one that holds a
  document are skipped, that segment is reached, and when \<open>Read\<close> returns (with or without
  an error) the map of the reader holds an index entry.  The entry is the one assigned last:
  when the loop gets to the last segment that holds a document, the map holds after \<open>Read\<close>
  the index of that segment, the count of the documents appended before it.
  \<open>LocalPackageReader.initReaderAnnotations\<close> writes the package and path keys into its map
  in the same way, and after the walk function has handled a matching file that map holds
  the path of the file relative to the package and its directory: it was handed to the byte
  reader of the file, which wrote nothing but the index entry.  A \<open>Read\<close> of an input in
  which no segment holds a document leaves the reader and the store as they were: no map is
  allocated and none is written.
\<close>

theorem SetAnnotations_map_written_in_place:
  "make_map None st = (fresh st, st\<lparr>cells := (cells st)(fresh st := []), fresh := Suc (fresh st)\<rparr>)
 \<and> make_map (Some a) st = (a, st)
 \<and> (\<not> OmitReaderAnnotations r \<and> stamps D v \<longrightarrow>
      snd (decode D index v r st) =
        (r\<lparr>SetAnnotations := Some (fst (make_map (SetAnnotations r) st))\<rparr>,
         map_set (snd (make_map (SetAnnotations r) st)) (fst (make_map (SetAnnotations r) st))
           IndexAnnotation (Sprintf_d index)))
 \<and> (\<not> stamps D v \<longrightarrow> snd (decode D index v r st) = (r, st))
 \<and> (SetAnnotations r = Some a \<longrightarrow>
      SetAnnotations (fst (snd (ByteReader_Read D r st))) = Some a \<and>
      only_index_written a st (snd (snd (ByteReader_Read D r st))))
 \<and> (\<not> OmitReaderAnnotations r \<and> Reader r = Inr input \<and>
     strings_Split input separator = pre @ u # post \<and>
     (\<forall>w\<in>set pre. skipped D w) \<and> stamps D u \<longrightarrow>
      SetAnnotations (fst (snd (ByteReader_Read D r st))) =
        Some (fst (make_map (SetAnnotations r) st)) \<and>
      (\<exists>j. index_entry (fst (snd (ByteReader_Read D r st))) (snd (snd (ByteReader_Read D r st))) =
             Some (Sprintf_d j)))
 \<and> (\<not> OmitReaderAnnotations r \<and> Reader r = Inr input \<and>
     strings_Split input separator = front @ z # rest \<and>
     fst (Read_values D front 0 [] r st) = Inr appended \<and>
     stamps D z \<and> (\<forall>w\<in>set rest. skipped D w) \<longrightarrow>
      index_entry (fst (snd (ByteReader_Read D r st))) (snd (snd (ByteReader_Read D r st))) =
        Some (Sprintf_d (length (directs appended))))
 \<and> (\<not> pr_OmitReaderAnnotations pr \<longrightarrow>
      initReaderAnnotations E pr path pst =
        (pr\<lparr>pr_SetAnnotations := Some (fst (make_map (pr_SetAnnotations pr) pst))\<rparr>,
         map_set (map_set (snd (make_map (pr_SetAnnotations pr) pst))
                    (fst (make_map (pr_SetAnnotations pr) pst)) PackageAnnotation (filepath_Dir E path))
           (fst (make_map (pr_SetAnnotations pr) pst)) PathAnnotation path))
 \<and> (\<not> IsDir info \<and>
     shouldSkipFile E (pr_MatchFilesGlob (ws_r s)) (Name info) = (True, None) \<and>
     filepath_Rel E (if wpath = pr_PackagePath (ws_r s)
                     then filepath_Dir E (pr_PackagePath (ws_r s)) else ws_pathRelativeTo s) wpath
       = Inr path' \<and>
     \<not> pr_OmitReaderAnnotations (ws_r s) \<longrightarrow>
      pr_SetAnnotations (ws_r (snd (Read_walkFn E fs wpath (Some info) None s))) =
        Some (fst (make_map (pr_SetAnnotations (ws_r s)) (ws_store s))) \<and>
      map_of (cells (ws_store (snd (Read_walkFn E fs wpath (Some info) None s)))
                (fst (make_map (pr_SetAnnotations (ws_r s)) (ws_store s)))) PathAnnotation
        = Some path' \<and>
      map_of (cells (ws_store (snd (Read_walkFn E fs wpath (Some info) None s)))
                (fst (make_map (pr_SetAnnotations (ws_r s)) (ws_store s)))) PackageAnnotation
        = Some (filepath_Dir E path'))
 \<and> (Reader r = Inr input \<and> (\<forall>w\<in>set (strings_Split input separator). \<not> stamps D w) \<longrightarrow>
      snd (ByteReader_Read D r st) = (r, st))"
proof (intro conjI impI)
  show "make_map None st =
      (fresh st, st\<lparr>cells := (cells st)(fresh st := []), fresh := Suc (fresh st)\<rparr>)"
    and "make_map (Some a) st = (a, st)"
    by (simp_all add: make_map_def alloc_def)
next
  assume "\<not> OmitReaderAnnotations r \<and> stamps D v"
  then show "snd (decode D index v r st) =
        (r\<lparr>SetAnnotations := Some (fst (make_map (SetAnnotations r) st))\<rparr>,
         map_set (snd (make_map (SetAnnotations r) st)) (fst (make_map (SetAnnotations r) st))
           IndexAnnotation (Sprintf_d index))"
    using decode_stamps_store [of D v index r st] by simp
next
  assume "\<not> stamps D v"
  then show "snd (decode D index v r st) = (r, st)" by (rule decode_not_stamps)
next
  assume a: "SetAnnotations r = Some a"
  have "ByteReader_Read D r st =
      (fst (ByteReader_Read D r st), fst (snd (ByteReader_Read D r st)), snd (snd (ByteReader_Read D r st)))"
    by simp
  from ByteReader_Read_Some_map [OF a this]
  show "SetAnnotations (fst (snd (ByteReader_Read D r st))) = Some a"
    and "only_index_written a st (snd (snd (ByteReader_Read D r st)))" by simp_all
next
  assume h: "\<not> OmitReaderAnnotations r \<and> Reader r = Inr input \<and>
     strings_Split input separator = pre @ u # post \<and>
     (\<forall>w\<in>set pre. skipped D w) \<and> stamps D u"
  obtain tres r' st' where
    t: "Read_values D (pre @ u # post) 0 [] r st = (tres, r', st')"
    by (cases "Read_values D (pre @ u # post) 0 [] r st")
  from h t have b: "snd (ByteReader_Read D r st) = (r', st')"
    by (cases tres) (simp_all add: ByteReader_Read_def ByteReader_Read_tagged_def)
  from h have o: "\<not> OmitReaderAnnotations r"
    and e: "\<forall>w\<in>set pre. skipped D w" and s: "stamps D u" by simp_all
  from Read_values_first_stamp [OF o e s t] b
  show "SetAnnotations (fst (snd (ByteReader_Read D r st))) =
        Some (fst (make_map (SetAnnotations r) st))"
    and "\<exists>j. index_entry (fst (snd (ByteReader_Read D r st))) (snd (snd (ByteReader_Read D r st))) =
             Some (Sprintf_d j)"
    by simp_all
next
  assume h: "\<not> OmitReaderAnnotations r \<and> Reader r = Inr input \<and>
     strings_Split input separator = front @ z # rest \<and>
     fst (Read_values D front 0 [] r st) = Inr appended \<and>
     stamps D z \<and> (\<forall>w\<in>set rest. skipped D w)"
  obtain r1 st1 where f: "Read_values D front 0 [] r st = (Inr appended, r1, st1)"
    using h by (cases "Read_values D front 0 [] r st") simp
  obtain tres r' st' where
    t: "Read_values D (front @ z # rest) 0 [] r st = (tres, r', st')"
    by (cases "Read_values D (front @ z # rest) 0 [] r st")
  from h t have b: "snd (ByteReader_Read D r st) = (r', st')"
    by (cases tres) (simp_all add: ByteReader_Read_def ByteReader_Read_tagged_def)
  from h have o: "\<not> OmitReaderAnnotations r"
    and s: "stamps D z" and e: "\<forall>w\<in>set rest. skipped D w" by simp_all
  from Read_values_last_stamp [OF o f s e t] b
  show "index_entry (fst (snd (ByteReader_Read D r st))) (snd (snd (ByteReader_Read D r st))) =
        Some (Sprintf_d (length (directs appended)))"
    by simp
next
  assume "\<not> pr_OmitReaderAnnotations pr"
  then show "initReaderAnnotations E pr path pst =
        (pr\<lparr>pr_SetAnnotations := Some (fst (make_map (pr_SetAnnotations pr) pst))\<rparr>,
         map_set (map_set (snd (make_map (pr_SetAnnotations pr) pst))
                    (fst (make_map (pr_SetAnnotations pr) pst)) PackageAnnotation (filepath_Dir E path))
           (fst (make_map (pr_SetAnnotations pr) pst)) PathAnnotation path)"
    by (rule initReaderAnnotations_maps)
next
  assume h: "\<not> IsDir info \<and>
     shouldSkipFile E (pr_MatchFilesGlob (ws_r s)) (Name info) = (True, None) \<and>
     filepath_Rel E (if wpath = pr_PackagePath (ws_r s)
                     then filepath_Dir E (pr_PackagePath (ws_r s)) else ws_pathRelativeTo s) wpath
       = Inr path' \<and>
     \<not> pr_OmitReaderAnnotations (ws_r s)"
  have w: "Read_walkFn E fs wpath (Some info) None s =
      (fst (Read_walkFn E fs wpath (Some info) None s), snd (Read_walkFn E fs wpath (Some info) None s))"
    by simp
  from h have 1: "\<not> IsDir info"
    and 2: "shouldSkipFile E (pr_MatchFilesGlob (ws_r s)) (Name info) = (True, None)"
    and 3: "filepath_Rel E (if wpath = pr_PackagePath (ws_r s)
                     then filepath_Dir E (pr_PackagePath (ws_r s)) else ws_pathRelativeTo s) wpath
       = Inr path'"
    and 4: "\<not> pr_OmitReaderAnnotations (ws_r s)" by simp_all
  from Read_walkFn_file [OF 1 2 3 4 w]
  show "pr_SetAnnotations (ws_r (snd (Read_walkFn E fs wpath (Some info) None s))) =
        Some (fst (make_map (pr_SetAnnotations (ws_r s)) (ws_store s)))"
    and "map_of (cells (ws_store (snd (Read_walkFn E fs wpath (Some info) None s)))
                (fst (make_map (pr_SetAnnotations (ws_r s)) (ws_store s)))) PathAnnotation
        = Some path'"
    and "map_of (cells (ws_store (snd (Read_walkFn E fs wpath (Some info) None s)))
                (fst (make_map (pr_SetAnnotations (ws_r s)) (ws_store s)))) PackageAnnotation
        = Some (filepath_Dir E path')"
    by simp_all
next
  assume "Reader r = Inr input \<and> (\<forall>w\<in>set (strings_Split input separator). \<not> stamps D w)"
  then show "snd (ByteReader_Read D r st) = (r, st)"
    using ByteReader_Read_not_stamps [of r input D st] by simp
qed

text \<open>
  C10 as stated speaks of every call of \<open>Read\<close>.  On the empty input the one segment decodes
  to end of input: \<open>decode\<close> returns before it touches the map, a nil map stays nil and a
  map the caller supplied stays as it was.
\<close>

theorem ByteReader_Read_empty_input_counterexample:
  "\<not> OmitReaderAnnotations (example_ByteReader [])
 \<and> SetAnnotations (example_ByteReader []) = None
 \<and> ByteReader_Read example_Decode (example_ByteReader []) empty_store =
      (Inr [], example_ByteReader [], empty_store)
 \<and> ByteReader_Read example_Decode (caller_ByteReader []) caller_store =
      (Inr [], caller_ByteReader [], caller_store)
 \<and> map_of (cells caller_store 0) IndexAnnotation = None"
  by (simp add: run_defs pkg_defs)

theorem SetAnnotations_map_written_in_place_witness:
  "snd (decode example_Decode 3 ''a: 1'' (caller_ByteReader two_documents) caller_store) =
     (caller_ByteReader two_documents,
      \<lparr>cells = (\<lambda>_. [])(0 := [(''owner'', ''me''), (IndexAnnotation, ''3'')]), fresh = 1\<rparr>)
 \<and> snd (decode example_Decode 3 '''' (caller_ByteReader two_documents) caller_store) =
     (caller_ByteReader two_documents, caller_store)
 \<and> snd (ByteReader_Read example_Decode (caller_ByteReader two_documents) caller_store) =
     (caller_ByteReader two_documents,
      \<lparr>cells = (\<lambda>_. [])(0 := [(''owner'', ''me''), (IndexAnnotation, ''1'')]), fresh = 1\<rparr>)
 \<and> snd (ByteReader_Read example_Decode (example_ByteReader two_documents) empty_store) =
     ((example_ByteReader two_documents)\<lparr>SetAnnotations := Some 0\<rparr>,
      \<lparr>cells = (\<lambda>_. [])(0 := [(IndexAnnotation, ''1'')]), fresh = 1\<rparr>)
 \<and> index_entry
      (fst (snd (ByteReader_Read example_Decode (example_ByteReader two_documents) empty_store)))
      (snd (snd (ByteReader_Read example_Decode (example_ByteReader two_documents) empty_store))) =
     Some ''1''
 \<and> initReaderAnnotations example_env example_Reader ''a.yaml'' empty_store =
     (example_Reader\<lparr>pr_SetAnnotations := Some 0\<rparr>,
      \<lparr>cells = (\<lambda>_. [])(0 := [(PackageAnnotation, ''.''), (PathAnnotation, ''a.yaml'')]), fresh = 1\<rparr>)
 \<and> snd (Read_walkFn example_env example_fs ''pkg/a.yaml'' (Some (FileInfo ''a.yaml'' False)) None
        \<lparr>ws_r = example_Reader, ws_operand = [], ws_pathRelativeTo = ''pkg'', ws_store = empty_store\<rparr>) =
     \<lparr>ws_r = example_Reader\<lparr>pr_SetAnnotations := Some 0\<rparr>,
      ws_operand = [package_doc ''a'' ''1'' ''0'' ''.'' ''a.yaml''],
      ws_pathRelativeTo = ''pkg'',
      ws_store = \<lparr>cells = (\<lambda>_. [])(0 := [(PackageAnnotation, ''.''), (PathAnnotation, ''a.yaml''),
                                           (IndexAnnotation, ''0'')]), fresh = 1\<rparr>\<rparr>
 \<and> snd (ByteReader_Read example_Decode (caller_ByteReader []) caller_store) =
     (caller_ByteReader [], caller_store)"
proof -
  let ?s0 = "\<lparr>ws_r = example_Reader, ws_operand = [], ws_pathRelativeTo = ''pkg'', ws_store = empty_store\<rparr>"
  note t1 = SetAnnotations_map_written_in_place
    [where r = "caller_ByteReader two_documents" and D = example_Decode and v = "''a: 1''"
      and index = 3 and st = caller_store and a = 0 and input = two_documents
      and pre = "[]" and u = "''a: 1''" and post = "[''b: 2\<newline>'']"
      and front = "[''a: 1'']" and z = "''b: 2\<newline>''" and rest = "[]"
      and appended = "[(Direct, stamped_doc ''a'' ''1'' ''0'')]"
      and pr = example_Reader and E = example_env and path = "''a.yaml''" and pst = empty_store
      and info = "FileInfo ''a.yaml'' False" and s = ?s0 and wpath = "''pkg/a.yaml''"
      and path' = "''a.yaml''" and fs = example_fs]
  note t2 = SetAnnotations_map_written_in_place
    [where r = "example_ByteReader two_documents" and D = example_Decode and v = "''''"
      and index = 3 and st = empty_store and a = 0 and input = two_documents
      and pre = "[]" and u = "''a: 1''" and post = "[''b: 2\<newline>'']"
      and front = "[''a: 1'']" and z = "''b: 2\<newline>''" and rest = "[]"
      and appended = "[(Direct, stamped_doc ''a'' ''1'' ''0'')]"
      and pr = example_Reader and E = example_env and path = "''a.yaml''" and pst = empty_store
      and info = "FileInfo ''a.yaml'' False" and s = ?s0 and wpath = "''pkg/a.yaml''"
      and path' = "''a.yaml''" and fs = example_fs]
  have 1: "snd (decode example_Decode 3 ''a: 1'' (caller_ByteReader two_documents) caller_store) =
     (caller_ByteReader two_documents,
      \<lparr>cells = (\<lambda>_. [])(0 := [(''owner'', ''me''), (IndexAnnotation, ''3'')]), fresh = 1\<rparr>)"
    using t1 [THEN conjunct2, THEN conjunct2, THEN conjunct1] by (simp add: run_defs pkg_defs two_documents_def stamps_def)
  have 2: "snd (decode example_Decode 3 '''' (caller_ByteReader two_documents) caller_store) =
     (caller_ByteReader two_documents, caller_store)"
    using SetAnnotations_map_written_in_place
      [where r = "caller_ByteReader two_documents" and D = example_Decode and v = "''''"
        and index = 3 and st = caller_store,
        THEN conjunct2, THEN conjunct2, THEN conjunct2, THEN conjunct1]
    by (simp add: run_defs pkg_defs two_documents_def stamps_def)
  have 3: "snd (ByteReader_Read example_Decode (caller_ByteReader two_documents) caller_store) =
     (caller_ByteReader two_documents,
      \<lparr>cells = (\<lambda>_. [])(0 := [(''owner'', ''me''), (IndexAnnotation, ''1'')]), fresh = 1\<rparr>)"
    using t1 [THEN conjunct2, THEN conjunct2, THEN conjunct2, THEN conjunct2, THEN conjunct1]
    by (simp add: run_defs pkg_defs two_documents_def stamps_def)
  have 4: "snd (ByteReader_Read example_Decode (example_ByteReader two_documents) empty_store) =
     ((example_ByteReader two_documents)\<lparr>SetAnnotations := Some 0\<rparr>,
      \<lparr>cells = (\<lambda>_. [])(0 := [(IndexAnnotation, ''1'')]), fresh = 1\<rparr>)"
    using t2 [THEN conjunct2, THEN conjunct2, THEN conjunct2, THEN conjunct2, THEN conjunct2,
        THEN conjunct1]
    by (simp add: run_defs pkg_defs two_documents_def stamps_def)
  have 5: "initReaderAnnotations example_env example_Reader ''a.yaml'' empty_store =
     (example_Reader\<lparr>pr_SetAnnotations := Some 0\<rparr>,
      \<lparr>cells = (\<lambda>_. [])(0 := [(PackageAnnotation, ''.''), (PathAnnotation, ''a.yaml'')]), fresh = 1\<rparr>)"
    using t1 [THEN conjunct2, THEN conjunct2, THEN conjunct2, THEN conjunct2, THEN conjunct2,
        THEN conjunct2, THEN conjunct2, THEN conjunct1]
    by (simp add: run_defs pkg_defs)
  have 6: "snd (Read_walkFn example_env example_fs ''pkg/a.yaml'' (Some (FileInfo ''a.yaml'' False)) None ?s0) =
     \<lparr>ws_r = example_Reader\<lparr>pr_SetAnnotations := Some 0\<rparr>,
      ws_operand = [package_doc ''a'' ''1'' ''0'' ''.'' ''a.yaml''],
      ws_pathRelativeTo = ''pkg'',
      ws_store = \<lparr>cells = (\<lambda>_. [])(0 := [(PackageAnnotation, ''.''), (PathAnnotation, ''a.yaml''),
                                           (IndexAnnotation, ''0'')]), fresh = 1\<rparr>\<rparr>"
    using t1 [THEN conjunct2, THEN conjunct2, THEN conjunct2, THEN conjunct2, THEN conjunct2,
        THEN conjunct2, THEN conjunct2, THEN conjunct2, THEN conjunct1]
    by (simp add: run_defs pkg_defs)
  have 7: "index_entry
      (fst (snd (ByteReader_Read example_Decode (example_ByteReader two_documents) empty_store)))
      (snd (snd (ByteReader_Read example_Decode (example_ByteReader two_documents) empty_store))) =
     Some ''1''"
    using t2 [THEN conjunct2, THEN conjunct2, THEN conjunct2, THEN conjunct2, THEN conjunct2,
        THEN conjunct2, THEN conjunct1]
    by (simp add: run_defs pkg_defs two_documents_def stamps_def skipped_def directs_def
        stamped_doc_def)
  have 8: "snd (ByteReader_Read example_Decode (caller_ByteReader []) caller_store) =
     (caller_ByteReader [], caller_store)"
    using SetAnnotations_map_written_in_place
      [where r = "caller_ByteReader []" and D = example_Decode and st = caller_store
        and input = "[]",
        THEN conjunct2, THEN conjunct2, THEN conjunct2, THEN conjunct2, THEN conjunct2,
        THEN conjunct2, THEN conjunct2, THEN conjunct2, THEN conjunct2]
    by (simp add: run_defs pkg_defs stamps_def)
  show ?thesis by (intro conjI) (rule 1, rule 2, rule 3, rule 4, rule 7, rule 5, rule 6, rule 8)
qed

text \<open>
  C2, as amended.  After a successful \<open>Read\<close> of a read-writer with \<open>NoDeleteFiles\<close> false,
  the tracked set \<open>files\<close> is the set of the path annotations of the documents read (and no
  other field has changed); with \<open>NoDeleteFiles\<close> true, \<open>Read\<close> leaves the read-writer as it
  was.  \<open>Write\<close> never changes the read-writer: it computes the set of the documents it
  writes for the deletions only, and \<open>files\<close> stays what the last \<open>Read\<close> made it.
\<close>

theorem LocalPackageReadWriter_files:
  "(\<not> rw_NoDeleteFiles r \<and> LocalPackageReadWriter_Read E r fs st = (Inr nodes, r', st') \<longrightarrow>
      r' = r\<lparr>files := files r'\<rparr> \<and>
      set (files r') = set (path_annotations E nodes) \<and> distinct (files r'))
 \<and> (rw_NoDeleteFiles r \<and> LocalPackageReadWriter_Read E r fs st = (Inr nodes, r', st') \<longrightarrow> r' = r)
 \<and> fst (snd (LocalPackageReadWriter_Write E r wnodes wfs wst)) = r"
proof (intro conjI impI)
  assume h: "\<not> rw_NoDeleteFiles r \<and> LocalPackageReadWriter_Read E r fs st = (Inr nodes, r', st')"
  then obtain val where v: "getFiles E nodes = Inr val" "r' = r\<lparr>files := val\<rparr>"
    by (auto simp: LocalPackageReadWriter_Read_def split: prod.splits option.splits sum.splits)
  from v(2) show "r' = r\<lparr>files := files r'\<rparr>" by simp
  from getFiles_set [OF v(1)] v(2)
  show "set (files r') = set (path_annotations E nodes)" and "distinct (files r')" by simp_all
next
  assume "rw_NoDeleteFiles r \<and> LocalPackageReadWriter_Read E r fs st = (Inr nodes, r', st')"
  then show "r' = r"
    by (auto simp: LocalPackageReadWriter_Read_def split: prod.splits option.splits sum.splits)
next
  show "fst (snd (LocalPackageReadWriter_Write E r wnodes wfs wst)) = r"
    by (simp add: LocalPackageReadWriter_Write_def Let_def split: sum.splits prod.splits option.splits)
qed

lemma run_package_read:
  "LocalPackageReadWriter_Read example_env example_ReadWriter example_fs empty_store =
     (Inr [package_doc ''a'' ''1'' ''0'' ''.'' ''a.yaml'',
           package_doc ''b'' ''2'' ''0'' ''.'' ''b.yaml'',
           package_doc ''c'' ''3'' ''0'' ''.'' ''c.yaml''],
      example_ReadWriter\<lparr>files := [''c.yaml'', ''b.yaml'', ''a.yaml'']\<rparr>,
      read_store)"
  by (simp add: pkg_defs run_defs read_store_def)

lemma run_package_write:
  "LocalPackageReadWriter_Write example_env
     (example_ReadWriter\<lparr>files := [''c.yaml'', ''b.yaml'', ''a.yaml'']\<rparr>)
     [package_doc ''a'' ''1'' ''0'' ''.'' ''a.yaml''] example_fs read_store =
   (None, example_ReadWriter\<lparr>files := [''c.yaml'', ''b.yaml'', ''a.yaml'']\<rparr>,
    [(''pkg/a.yaml'', ''a: 1'')])"
  by (simp add: pkg_defs run_defs read_store_def)

lemma path_annotations_a:
  "path_annotations example_env [package_doc ''a'' ''1'' ''0'' ''.'' ''a.yaml''] = [''a.yaml'']"
  by (simp add: pkg_defs run_defs)

text \<open>
  C2 as stated fails for \<open>Write\<close>.  The read-writer reads the package with the files
  \<open>a.yaml\<close>, \<open>b.yaml\<close> and \<open>c.yaml\<close> and then writes the document of \<open>a.yaml\<close> alone.
  The write succeeds, and \<open>files\<close> still holds the three paths, not the one path
  annotation of the document written.
\<close>

theorem LocalPackageReadWriter_Write_files_counterexample:
  "LocalPackageReadWriter_Read example_env example_ReadWriter example_fs empty_store =
     (Inr [package_doc ''a'' ''1'' ''0'' ''.'' ''a.yaml'',
           package_doc ''b'' ''2'' ''0'' ''.'' ''b.yaml'',
           package_doc ''c'' ''3'' ''0'' ''.'' ''c.yaml''],
      example_ReadWriter\<lparr>files := [''c.yaml'', ''b.yaml'', ''a.yaml'']\<rparr>,
      read_store)
 \<and> fst (LocalPackageReadWriter_Write example_env
       (example_ReadWriter\<lparr>files := [''c.yaml'', ''b.yaml'', ''a.yaml'']\<rparr>)
       [package_doc ''a'' ''1'' ''0'' ''.'' ''a.yaml''] example_fs read_store) = None
 \<and> set (files (fst (snd (LocalPackageReadWriter_Write example_env
       (example_ReadWriter\<lparr>files := [''c.yaml'', ''b.yaml'', ''a.yaml'']\<rparr>)
       [package_doc ''a'' ''1'' ''0'' ''.'' ''a.yaml''] example_fs read_store)))) \<noteq>
     set (path_annotations example_env [package_doc ''a'' ''1'' ''0'' ''.'' ''a.yaml''])"
  by (simp add: run_package_read run_package_write path_annotations_a)

theorem LocalPackageReadWriter_files_witness:
  "files (fst (snd (LocalPackageReadWriter_Read example_env example_ReadWriter example_fs empty_store)))
     = [''c.yaml'', ''b.yaml'', ''a.yaml'']
 \<and> set [''c.yaml'', ''b.yaml'', ''a.yaml''] =
     set (path_annotations example_env
            [package_doc ''a'' ''1'' ''0'' ''.'' ''a.yaml'',
             package_doc ''b'' ''2'' ''0'' ''.'' ''b.yaml'',
             package_doc ''c'' ''3'' ''0'' ''.'' ''c.yaml''])
 \<and> LocalPackageReadWriter_Read example_env (example_ReadWriter\<lparr>rw_NoDeleteFiles := True\<rparr>)
       example_fs empty_store =
     (Inr [package_doc ''a'' ''1'' ''0'' ''.'' ''a.yaml'',
           package_doc ''b'' ''2'' ''0'' ''.'' ''b.yaml'',
           package_doc ''c'' ''3'' ''0'' ''.'' ''c.yaml''],
      example_ReadWriter\<lparr>rw_NoDeleteFiles := True\<rparr>, read_store)"
proof -
  have n: "\<not> rw_NoDeleteFiles example_ReadWriter" by (simp add: example_ReadWriter_def)
  note t = LocalPackageReadWriter_files
    [where r = example_ReadWriter and E = example_env and fs = example_fs and st = empty_store
      and nodes = "[package_doc ''a'' ''1'' ''0'' ''.'' ''a.yaml'',
           package_doc ''b'' ''2'' ''0'' ''.'' ''b.yaml'',
           package_doc ''c'' ''3'' ''0'' ''.'' ''c.yaml'']"
      and r' = "example_ReadWriter\<lparr>files := [''c.yaml'', ''b.yaml'', ''a.yaml'']\<rparr>"
      and st' = read_store, THEN conjunct1]
  have 1: "files (fst (snd (LocalPackageReadWriter_Read example_env example_ReadWriter example_fs empty_store)))
     = [''c.yaml'', ''b.yaml'', ''a.yaml'']"
    by (simp add: run_package_read)
  have 2: "set [''c.yaml'', ''b.yaml'', ''a.yaml''] =
     set (path_annotations example_env
            [package_doc ''a'' ''1'' ''0'' ''.'' ''a.yaml'',
             package_doc ''b'' ''2'' ''0'' ''.'' ''b.yaml'',
             package_doc ''c'' ''3'' ''0'' ''.'' ''c.yaml''])"
    using t n run_package_read by simp
  have 3: "LocalPackageReadWriter_Read example_env (example_ReadWriter\<lparr>rw_NoDeleteFiles := True\<rparr>)
       example_fs empty_store =
     (Inr [package_doc ''a'' ''1'' ''0'' ''.'' ''a.yaml'',
           package_doc ''b'' ''2'' ''0'' ''.'' ''b.yaml'',
           package_doc ''c'' ''3'' ''0'' ''.'' ''c.yaml''],
      example_ReadWriter\<lparr>rw_NoDeleteFiles := True\<rparr>, read_store)"
    by (simp add: pkg_defs run_defs read_store_def)
  show ?thesis by (intro conjI) (rule 1, rule 2, rule 3)
qed





end
